theory Spec2Isabelle
  imports Main "HOL-Library.Word"
begin

section \<open>Bytes, errors and sequential readers\<close>

text \<open>
  A Go \<open>byte\<close> is a \<open>char\<close> (eight bits), an \<open>int64\<close> is a 64-bit word read
  through \<open>sint\<close>: subtraction and addition wrap as they do in Go.
\<close>

type_synonym byte = char
type_synonym int64 = "64 word"

text \<open>
  The error values that \<open>main.go\<close> creates or tests for. \<open>Foreign\<close> stands for every
  error made by a library or the operating system (xz, zstd, cpio, yaml, file I/O); it
  carries the message. The two \<open>Panic\<close> constructors are run-time panics, which are not
  returned but abort the program.
\<close>

datatype error =
    EOF
  | ErrUnexpectedEOF
  | ErrNegativeSeek
  | ErrNoLayers
  | ErrReaderAtType
  | PanicIndexOutOfRange
  | PanicTypeAssertion
  | Foreign string

text \<open>The text of each error, as \<open>log.Fatalf("failed to run: %v", err)\<close> prints it.\<close>

fun Error :: "error \<Rightarrow> string" where
  "Error EOF = ''EOF''"
| "Error ErrUnexpectedEOF = ''unexpected EOF''"
| "Error ErrNegativeSeek = ''negative seek on discarder not allowed''"
| "Error ErrNoLayers = ''extensions.yaml has no layers''"
| "Error ErrReaderAtType = ''unexpected ReaderAt type; want *io.SectionReader''"
| "Error PanicIndexOutOfRange = ''runtime error: index out of range [-1]''"
| "Error PanicTypeAssertion = ''interface conversion: io.ReaderAt is not *io.SectionReader''"
| "Error (Foreign m) = m"

text \<open>
  A sequential reader (\<open>*bufio.Reader\<close> over a file or over a decompressor) is the
  bytes it has still to deliver and the error its \<open>Read\<close> returns once they are used
  up: \<open>io.EOF\<close> at a clean end, another error when the source fails.
\<close>

record reader =
  rest :: "byte list"
  fin :: error

text \<open>\<open>bufio.Reader.Peek(n)\<close>: the next \<open>n\<close> bytes without consuming them.\<close>

definition Peek :: "reader \<Rightarrow> nat \<Rightarrow> error + byte list" where
  "Peek inp n = (if n \<le> length (rest inp) then Inr (take n (rest inp)) else Inl (fin inp))"

text \<open>\<open>bufio.Reader.ReadByte\<close>.\<close>

definition ReadByte :: "reader \<Rightarrow> (error + byte) \<times> reader" where
  "ReadByte inp =
     (case rest inp of
        [] \<Rightarrow> (Inl (fin inp), inp)
      | b # bs \<Rightarrow> (Inr b, inp\<lparr>rest := bs\<rparr>))"

text \<open>
  \<open>bufio.Reader.UnreadByte\<close>, called right after \<open>ReadByte\<close> has returned the byte
  \<open>b\<close>: there it cannot fail and puts \<open>b\<close> back.
\<close>

definition UnreadByte :: "byte \<Rightarrow> reader \<Rightarrow> error option \<times> reader" where
  "UnreadByte b inp = (None, inp\<lparr>rest := b # rest inp\<rparr>)"

text \<open>
  \<open>io.ReadFull(r, p)\<close> with \<open>len(p) = n\<close>: the bytes put into \<open>p\<close> and the error.
  Fewer than \<open>n\<close> bytes give \<open>io.ErrUnexpectedEOF\<close> when some were read and the
  source ended with \<open>io.EOF\<close>, and the source's own error otherwise.
\<close>

definition ReadFull :: "reader \<Rightarrow> nat \<Rightarrow> (byte list \<times> error option) \<times> reader" where
  "ReadFull inp n =
     (if n \<le> length (rest inp)
      then ((take n (rest inp), None), inp\<lparr>rest := drop n (rest inp)\<rparr>)
      else ((rest inp,
             Some (if rest inp \<noteq> [] \<and> fin inp = EOF then ErrUnexpectedEOF else fin inp)),
            inp\<lparr>rest := []\<rparr>))"

text \<open>
  \<open>io.Copy(io.Discard, io.LimitReader(r, k))\<close>: the number of bytes dropped and the
  error. \<open>io.Copy\<close> does not report \<open>io.EOF\<close>: a source that ends early gives a
  short count and a nil error.
\<close>

definition Copy_Discard_LimitReader :: "reader \<Rightarrow> int \<Rightarrow> (int \<times> error option) \<times> reader" where
  "Copy_Discard_LimitReader inp k =
     (if k \<le> 0 then ((0, None), inp)
      else if nat k \<le> length (rest inp)
      then ((k, None), inp\<lparr>rest := drop (nat k) (rest inp)\<rparr>)
      else ((int (length (rest inp)), if fin inp = EOF then None else Some (fin inp)),
            inp\<lparr>rest := []\<rparr>))"

section \<open>The discarder\<close>

record discarder =
  rdr :: reader
  pos :: int64

text \<open>
  \<open>discarder.ReadAt(p, off)\<close> with \<open>len(p) = n\<close>. The result is \<open>p[:n']\<close>, whose
  length is the count \<open>n'\<close> that Go returns, the error, and the discarder afterwards.
\<close>

definition ReadAt :: "discarder \<Rightarrow> nat \<Rightarrow> int64 \<Rightarrow> (byte list \<times> error option) \<times> discarder" where
  "ReadAt d n off =
     (if sint (off - pos d) < 0 then (([], Some ErrNegativeSeek), d)
      else
        let skipped =
              (if off \<noteq> pos d
               then (case Copy_Discard_LimitReader (rdr d) (sint (off - pos d)) of
                       ((i, err), inp) \<Rightarrow>
                         if err \<noteq> None \<or> i \<noteq> sint (off - pos d)
                         then Inl (([], err), d\<lparr>rdr := inp\<rparr>)
                         else Inr (d\<lparr>rdr := inp, pos := pos d + word_of_int i\<rparr>))
               else Inr d)
        in case skipped of
             Inl early \<Rightarrow> early
           | Inr d1 \<Rightarrow>
               (case ReadFull (rdr d1) n of
                  ((p, err), inp) \<Rightarrow>
                    if err \<noteq> None then ((p, err), d1\<lparr>rdr := inp\<rparr>)
                    else ((p, None), d1\<lparr>rdr := inp, pos := pos d1 + word_of_nat (length p)\<rparr>)))"

text \<open>A run of \<open>ReadAt\<close> requests \<open>(len(p), off)\<close> issued one after the other.\<close>

fun ReadAt_seq :: "discarder \<Rightarrow> (nat \<times> int64) list \<Rightarrow> (byte list \<times> error option) list \<times> discarder" where
  "ReadAt_seq d [] = ([], d)"
| "ReadAt_seq d ((n, off) # reqs) =
     (case ReadAt d n off of
        (res, d') \<Rightarrow> (case ReadAt_seq d' reqs of (ress, d'') \<Rightarrow> (res # ress, d'')))"

text \<open>A discarder freshly made over a reader: \<open>&discarder{r: reader}\<close>.\<close>

definition new_discarder :: "reader \<Rightarrow> discarder" where
  "new_discarder inp = \<lparr>rdr = inp, pos = 0\<rparr>"

section \<open>Skipping the padding between archives\<close>

text \<open>
  \<open>eatPadding\<close> reads bytes until one is not zero and puts that one back. The end of
  the input is not an error; any other read error is returned.
\<close>

function eatPadding :: "reader \<Rightarrow> error option \<times> reader" where
  "eatPadding inp =
     (case ReadByte inp of
        (Inl err, inp') \<Rightarrow> if err = EOF then (None, inp') else (Some err, inp')
      | (Inr b, inp') \<Rightarrow> if b \<noteq> CHR 0x00 then UnreadByte b inp' else eatPadding inp')"
  by pat_completeness auto
termination
  by (relation "measure (\<lambda>inp. length (rest inp))")
     (auto simp: ReadByte_def split: list.splits)

declare eatPadding.simps [simp del]

section \<open>What the libraries provide\<close>

text \<open>
  The dynamic type of the \<open>io.Reader\<close> that the sniffer returns: the buffered reader
  it was given, an \<open>*xz.Reader\<close> or a \<open>*zstd.Decoder\<close>. A decompressor is
  represented by the reader of the bytes it delivers.
\<close>

datatype io_Reader = BufioReader reader | XzReader reader | ZstdDecoder reader

text \<open>The two close functions of the program: \<open>func() {}\<close> and \<open>decoder.Close\<close>.\<close>

datatype closeFunc = no_op | Decoder_Close reader

text \<open>
  The \<open>io.ReaderAt\<close> of an archive record: an \<open>*io.SectionReader\<close> over the
  archive reader's source, with its offset and length, or a value of another type.
\<close>

datatype io_ReaderAt = SectionReader int64 int64 | NotSectionReader

record cpio_Record =
  Name :: string
  ReaderAt :: io_ReaderAt

text \<open>
  The archive reader made by \<open>cpio.Newc.Reader(d)\<close>: the discarder it reads from and
  its own position.
\<close>

record cpio_reader =
  cr :: discarder
  cpos :: int64

definition Newc_Reader :: "discarder \<Rightarrow> cpio_reader" where
  "Newc_Reader d = \<lparr>cr = d, cpos = 0\<rparr>"

text \<open>
  Modelled from the spec: the type \<open>extensions.Config\<close> is declared in the Talos
  machinery package, not in this repository. By the specification the document is a
  mapping with a sequence of layers, each of them a mapping with a metadata mapping
  that holds the extra information text; that is all the program reads of it.
\<close>

record Metadata =
  ExtraInfo :: string

record Layer =
  Metadata :: Metadata

record Config =
  Layers :: "Layer list"

text \<open>
  The library functions are parameters of the model: the two decompressor constructors
  (the reader of the decompressed bytes, or the error of the constructor), the archive
  reader's \<open>ReadRecord\<close>, and the YAML decoder applied to a section (offset and length)
  of the discarder.
\<close>

record libs =
  xz_NewReader :: "reader \<Rightarrow> error + reader"
  zstd_NewReader :: "reader \<Rightarrow> error + reader"
  ReadRecord :: "cpio_reader \<Rightarrow> (error + cpio_Record) \<times> cpio_reader"
  yaml_Decode :: "discarder \<Rightarrow> int64 \<Rightarrow> int64 \<Rightarrow> error + Config"

section \<open>The extraction pipeline\<close>

definition extensionsYAMLFileName :: string where
  "extensionsYAMLFileName = ''extensions.yaml''"

definition decompressingReadCloser :: "libs \<Rightarrow> reader \<Rightarrow> error + io_Reader \<times> closeFunc" where
  "decompressingReadCloser L inp =
     (case Peek inp 4 of
        Inl err \<Rightarrow> Inl err
      | Inr magic \<Rightarrow>
          if magic = [CHR 0xFD, CHR ''7'', CHR ''z'', CHR ''X''] then
            (case xz_NewReader L inp of
               Inl err \<Rightarrow> Inl err
             | Inr reader \<Rightarrow> Inr (XzReader reader, no_op))
          else if magic = [CHR 0x28, CHR 0xB5, CHR 0x2F, CHR 0xFD] then
            (case zstd_NewReader L inp of
               Inl err \<Rightarrow> Inl err
             | Inr decoder \<Rightarrow> Inr (ZstdDecoder decoder, Decoder_Close decoder))
          else Inr (BufioReader inp, no_op))"

text \<open>
  \<open>bufio.NewReader\<close>: a \<open>*bufio.Reader\<close> of the default size is returned as it
  is; a decompressor is wrapped and delivers the decompressed bytes.
\<close>

fun bufio_NewReader :: "io_Reader \<Rightarrow> reader" where
  "bufio_NewReader (BufioReader b) = b"
| "bufio_NewReader (XzReader x) = x"
| "bufio_NewReader (ZstdDecoder z) = z"

text \<open>
  \<open>parseRawFromExtensions\<close>. The section reader reads through the discarder, whose
  current state \<open>d\<close> is passed along.
\<close>

definition parseRawFromExtensions :: "libs \<Rightarrow> discarder \<Rightarrow> io_ReaderAt \<Rightarrow> error + string" where
  "parseRawFromExtensions L d readerAt =
     (case readerAt of
        NotSectionReader \<Rightarrow> Inl ErrReaderAtType
      | SectionReader off n \<Rightarrow>
          (case yaml_Decode L d off n of
             Inl err \<Rightarrow> Inl err
           | Inr extensionsConfig \<Rightarrow>
               if length (Layers extensionsConfig) = 0 then Inl ErrNoLayers
               else Inr (ExtraInfo (Metadata
                      (Layers extensionsConfig ! (length (Layers extensionsConfig) - 1))))))"

text \<open>
  What a run does besides returning: \<open>Found\<close> for every
  \<open>log.Printf("found record: %q", rec.Name)\<close>, with the record and the archive reader
  at that moment, and \<open>Acquired\<close> for every close function appended to
  \<open>closeFuncs\<close>.
\<close>

datatype event = Found cpio_Record cpio_reader | Acquired closeFunc

text \<open>
  The inner loop of \<open>extractRawSchematic\<close> either breaks at the end of the archive
  or returns from the function.
\<close>

datatype records_exit = Break cpio_reader "event list" | Return "error + string" "event list"

partial_function (option) read_records :: "libs \<Rightarrow> cpio_reader \<Rightarrow> event list \<Rightarrow> records_exit option" where
  "read_records L cpioReader tr =
     (case ReadRecord L cpioReader of
        (Inl err, cpioReader') \<Rightarrow>
          if err = EOF then Some (Break cpioReader' tr) else Some (Return (Inl err) tr)
      | (Inr rec, cpioReader') \<Rightarrow>
          if Name rec = extensionsYAMLFileName
          then Some (Return (parseRawFromExtensions L (cr cpioReader') (ReaderAt rec))
                       (tr @ [Found rec cpioReader']))
          else read_records L cpioReader' (tr @ [Found rec cpioReader']))"

text \<open>The outer loop, with the slice \<open>closeFuncs\<close> as it stands when the loop is left.\<close>

partial_function (option) extract_loop ::
  "libs \<Rightarrow> closeFunc list \<Rightarrow> event list \<Rightarrow> reader \<Rightarrow>
     ((error + string) \<times> event list \<times> closeFunc list) option" where
  "extract_loop L closeFuncs tr reader =
     (case decompressingReadCloser L reader of
        Inl err \<Rightarrow> Some (Inl err, tr, closeFuncs)
      | Inr (decReader, closeFunc) \<Rightarrow>
          Option.bind
            (read_records L (Newc_Reader (new_discarder (bufio_NewReader decReader)))
               (tr @ [Acquired closeFunc]))
            (\<lambda>exit. case exit of
               Return res tr' \<Rightarrow> Some (res, tr', closeFuncs @ [closeFunc])
             | Break cpioReader tr' \<Rightarrow>
                 (case eatPadding (rdr (cr cpioReader)) of
                    (Some err, reader') \<Rightarrow> Some (Inl err, tr', closeFuncs @ [closeFunc])
                  | (None, reader') \<Rightarrow> extract_loop L (closeFuncs @ [closeFunc]) tr' reader')))"

text \<open>
  The deferred function \<open>for _, c := range closeFuncs { c() }\<close>: the decoders it
  closes, in the order in which it closes them.
\<close>

fun call :: "closeFunc \<Rightarrow> reader list \<Rightarrow> reader list" where
  "call no_op closed = closed"
| "call (Decoder_Close decoder) closed = closed @ [decoder]"

definition deferred :: "closeFunc list \<Rightarrow> reader list" where
  "deferred closeFuncs = foldl (\<lambda>closed c. call c closed) [] closeFuncs"

text \<open>
  \<open>extractRawSchematic\<close>: the value returned, the events of the run and the decoders
  closed by the deferred function; \<open>None\<close> when the loops never end.
\<close>

definition extractRawSchematic ::
  "libs \<Rightarrow> reader \<Rightarrow> ((error + string) \<times> event list \<times> reader list) option" where
  "extractRawSchematic L reader =
     (case extract_loop L [] [] reader of
        None \<Rightarrow> None
      | Some (res, tr, closeFuncs) \<Rightarrow> Some (res, tr, deferred closeFuncs))"

section \<open>The same pipeline as written inside \<open>run\<close>\<close>

text \<open>
  \<open>main.go\<close> also holds the pipeline in its first form, as the loop at the end of
  \<open>run\<close>. It has no close functions, and it decodes a record named
  \<open>extensions.yaml\<close> in place: the type assertion is unchecked and the last layer is
  indexed without a test of the length, so both can panic. \<open>Inr s\<close> stands for
  \<open>s\<close> logged as the raw schematic and \<open>nil\<close> returned.
\<close>

definition run_sniff :: "libs \<Rightarrow> reader \<Rightarrow> error + io_Reader" where
  "run_sniff L inp =
     (case Peek inp 4 of
        Inl err \<Rightarrow> Inl err
      | Inr magic \<Rightarrow>
          if magic = [CHR 0xFD, CHR ''7'', CHR ''z'', CHR ''X''] then
            (case xz_NewReader L inp of Inl err \<Rightarrow> Inl err | Inr x \<Rightarrow> Inr (XzReader x))
          else if magic = [CHR 0x28, CHR 0xB5, CHR 0x2F, CHR 0xFD] then
            (case zstd_NewReader L inp of Inl err \<Rightarrow> Inl err | Inr z \<Rightarrow> Inr (ZstdDecoder z))
          else Inr (BufioReader inp))"

definition run_found :: "libs \<Rightarrow> discarder \<Rightarrow> io_ReaderAt \<Rightarrow> error + string" where
  "run_found L d readerAt =
     (case readerAt of
        NotSectionReader \<Rightarrow> Inl PanicTypeAssertion
      | SectionReader off n \<Rightarrow>
          (case yaml_Decode L d off n of
             Inl err \<Rightarrow> Inl err
           | Inr extensionConfig \<Rightarrow>
               if length (Layers extensionConfig) = 0 then Inl PanicIndexOutOfRange
               else Inr (ExtraInfo (Metadata
                      (Layers extensionConfig ! (length (Layers extensionConfig) - 1))))))"

partial_function (option) run_records :: "libs \<Rightarrow> cpio_reader \<Rightarrow> event list \<Rightarrow> records_exit option" where
  "run_records L cpioR tr =
     (case ReadRecord L cpioR of
        (Inl err, cpioR') \<Rightarrow>
          if err = EOF then Some (Break cpioR' tr) else Some (Return (Inl err) tr)
      | (Inr rec, cpioR') \<Rightarrow>
          if Name rec = ''extensions.yaml''
          then Some (Return (run_found L (cr cpioR') (ReaderAt rec)) (tr @ [Found rec cpioR']))
          else run_records L cpioR' (tr @ [Found rec cpioR']))"

partial_function (option) run_loop ::
  "libs \<Rightarrow> event list \<Rightarrow> reader \<Rightarrow> ((error + string) \<times> event list) option" where
  "run_loop L tr inp =
     (case run_sniff L inp of
        Inl err \<Rightarrow> Some (Inl err, tr)
      | Inr decReader \<Rightarrow>
          Option.bind
            (run_records L (Newc_Reader (new_discarder (bufio_NewReader decReader))) tr)
            (\<lambda>exit. case exit of
               Return res tr' \<Rightarrow> Some (res, tr')
             | Break cpioR tr' \<Rightarrow>
                 (case eatPadding (rdr (cr cpioR)) of
                    (Some err, inp') \<Rightarrow> Some (Inl err, tr')
                  | (None, inp') \<Rightarrow> run_loop L tr' inp')))"

section \<open>Notions used to state the properties\<close>

text \<open>
  Requests \<open>(length, offset)\<close> that go forward only: each starts at or after the
  cursor left by the one before and ends inside the \<open>len\<close> bytes of the stream.
  \<open>final_cursor\<close> is the cursor after the last of them.
\<close>

fun forward_requests :: "nat \<Rightarrow> nat \<Rightarrow> (nat \<times> nat) list \<Rightarrow> bool" where
  "forward_requests cur len [] = True"
| "forward_requests cur len ((n, k) # reqs) =
     (cur \<le> k \<and> k + n \<le> len \<and> forward_requests (k + n) len reqs)"

fun final_cursor :: "nat \<Rightarrow> (nat \<times> nat) list \<Rightarrow> nat" where
  "final_cursor cur [] = cur"
| "final_cursor cur ((n, k) # reqs) = final_cursor (k + n) reqs"

text \<open>A discarder that has consumed the first \<open>c\<close> bytes of the stream \<open>xs\<close>.\<close>

definition at_cursor :: "byte list \<Rightarrow> nat \<Rightarrow> discarder \<Rightarrow> bool" where
  "at_cursor xs c d = (pos d = word_of_nat c \<and> rest (rdr d) = drop c xs)"

text \<open>
  One turn of the outer loop that falls through to the next layer: the sniffer
  succeeds, the archive ends without a record named \<open>extensions.yaml\<close>, and the
  padding is skipped. The state is \<open>closeFuncs\<close>, the events so far and the reader.
\<close>

inductive next_layer ::
  "libs \<Rightarrow> closeFunc list \<times> event list \<times> reader \<Rightarrow> closeFunc list \<times> event list \<times> reader \<Rightarrow> bool"
  for L :: libs where
  fall_through:
    "decompressingReadCloser L reader = Inr (decReader, closeFunc) \<Longrightarrow>
     read_records L (Newc_Reader (new_discarder (bufio_NewReader decReader)))
       (tr @ [Acquired closeFunc]) = Some (Break cpioReader tr') \<Longrightarrow>
     eatPadding (rdr (cr cpioReader)) = (None, reader') \<Longrightarrow>
     next_layer L (closeFuncs, tr, reader) (closeFuncs @ [closeFunc], tr', reader')"

text \<open>The events in which a record named \<open>extensions.yaml\<close> was found.\<close>

fun is_match :: "event \<Rightarrow> bool" where
  "is_match (Found rec c) = (Name rec = extensionsYAMLFileName)"
| "is_match (Acquired f) = False"

text \<open>The decoders whose \<open>Close\<close> was appended to \<open>closeFuncs\<close>, in that order.\<close>

fun acquired_decoders :: "event list \<Rightarrow> reader list" where
  "acquired_decoders [] = []"
| "acquired_decoders (Acquired (Decoder_Close decoder) # tr) = decoder # acquired_decoders tr"
| "acquired_decoders (e # tr) = acquired_decoders tr"

text \<open>The events of a record exit.\<close>

fun exit_trace :: "records_exit \<Rightarrow> event list" where
  "exit_trace (Break c tr) = tr"
| "exit_trace (Return res tr) = tr"

text \<open>
  No record named \<open>extensions.yaml\<close> among the events; and the outcome of a run once
  such a record may have been found: it is the last event, no earlier event is one, and
  the value returned is what decoding that record gives.
\<close>

definition no_match :: "event list \<Rightarrow> bool" where
  "no_match tr = (\<forall>e \<in> set tr. \<not> is_match e)"

definition first_match_result ::
  "(discarder \<Rightarrow> io_ReaderAt \<Rightarrow> error + string) \<Rightarrow> (error + string) \<Rightarrow> event list \<Rightarrow> bool" where
  "first_match_result decode res tr =
     (no_match tr \<or>
      (\<exists>pre rec c. tr = pre @ [Found rec c] \<and> no_match pre \<and>
         Name rec = extensionsYAMLFileName \<and>
         res = decode (cr c) (ReaderAt rec)))"

text \<open>
  What the archive reader does on an artifact, told without the loops. Starting at
  \<open>c\<close>, successive calls of \<open>ReadRecord\<close> deliver the records of the list, each
  paired with the archive reader as it is after that call; \<open>last_reader\<close> is the
  archive reader after the last of them, and \<open>found_events\<close> are the lines logged
  for them.
\<close>

type_synonym records = "(cpio_Record \<times> cpio_reader) list"

fun delivers :: "libs \<Rightarrow> cpio_reader \<Rightarrow> records \<Rightarrow> bool" where
  "delivers L c [] = True"
| "delivers L c ((rec, c') # rs) = (ReadRecord L c = (Inr rec, c') \<and> delivers L c' rs)"

fun last_reader :: "cpio_reader \<Rightarrow> records \<Rightarrow> cpio_reader" where
  "last_reader c [] = c"
| "last_reader c ((rec, c') # rs) = last_reader c' rs"

definition found_events :: "records \<Rightarrow> event list" where
  "found_events rs = map (\<lambda>(rec, c). Found rec c) rs"

text \<open>
  A layer of the artifact without the record searched for: what the sniffer returns for
  it, the records its archive holds, none of them named \<open>extensions.yaml\<close>, and the
  archive reader when \<open>ReadRecord\<close> has answered \<open>io.EOF\<close> after them.
  \<open>passes L reader ls reader'\<close>: the stream \<open>reader\<close> begins with the layers
  \<open>ls\<close>, one after the other, each followed by zero padding that \<open>eatPadding\<close>
  skips without error, and \<open>reader'\<close> is the stream behind the last of them. The
  close functions of these layers, the events of these layers in
  \<open>extractRawSchematic\<close>, and the records logged for them by \<open>run\<close> follow.
\<close>

type_synonym passed_layer = "(io_Reader \<times> closeFunc) \<times> records \<times> cpio_reader"

fun passes :: "libs \<Rightarrow> reader \<Rightarrow> passed_layer list \<Rightarrow> reader \<Rightarrow> bool" where
  "passes L reader [] reader' = (reader' = reader)"
| "passes L reader (((decReader, closeFunc), others, cpioReader) # ls) reader' =
     (decompressingReadCloser L reader = Inr (decReader, closeFunc) \<and>
      delivers L (Newc_Reader (new_discarder (bufio_NewReader decReader))) others \<and>
      no_match (found_events others) \<and>
      ReadRecord L (last_reader (Newc_Reader (new_discarder (bufio_NewReader decReader))) others) =
        (Inl EOF, cpioReader) \<and>
      fst (eatPadding (rdr (cr cpioReader))) = None \<and>
      passes L (snd (eatPadding (rdr (cr cpioReader)))) ls reader')"

fun layer_closeFuncs :: "passed_layer list \<Rightarrow> closeFunc list" where
  "layer_closeFuncs [] = []"
| "layer_closeFuncs (((decReader, closeFunc), others, cpioReader) # ls) =
     closeFunc # layer_closeFuncs ls"

fun layer_events :: "passed_layer list \<Rightarrow> event list" where
  "layer_events [] = []"
| "layer_events (((decReader, closeFunc), others, cpioReader) # ls) =
     Acquired closeFunc # found_events others @ layer_events ls"

fun layer_records :: "passed_layer list \<Rightarrow> event list" where
  "layer_records [] = []"
| "layer_records (((decReader, closeFunc), others, cpioReader) # ls) =
     found_events others @ layer_records ls"

text \<open>
  Two assumptions on the libraries under which the loops can be shown to end.
  An archive reader that consumes what it reads: \<open>ReadRecord\<close> never makes the
  stream longer, a record costs at least one byte, and \<open>io.EOF\<close> comes either after
  some bytes were read (the trailer) or on a stream with nothing left. Decompression
  that is finitely nested: a measure \<open>depth\<close> of the compressed layers still ahead
  goes down whenever a decompressor is put on a stream and never goes up when bytes of
  a stream are skipped.
\<close>

definition consuming_reader :: "libs \<Rightarrow> (reader \<Rightarrow> nat) \<Rightarrow> bool" where
  "consuming_reader L depth =
     (\<forall>c r c'. ReadRecord L c = (r, c') \<longrightarrow>
        depth (rdr (cr c')) \<le> depth (rdr (cr c)) \<and>
        length (rest (rdr (cr c'))) \<le> length (rest (rdr (cr c))) \<and>
        (case r of
           Inr rec \<Rightarrow> length (rest (rdr (cr c'))) < length (rest (rdr (cr c)))
         | Inl err \<Rightarrow>
             err = EOF \<longrightarrow>
               rest (rdr (cr c')) = [] \<or>
               length (rest (rdr (cr c'))) < length (rest (rdr (cr c)))))"

definition finite_nesting :: "libs \<Rightarrow> (reader \<Rightarrow> nat) \<Rightarrow> bool" where
  "finite_nesting L depth =
     ((\<forall>inp out. xz_NewReader L inp = Inr out \<longrightarrow> depth out < depth inp) \<and>
      (\<forall>inp out. zstd_NewReader L inp = Inr out \<longrightarrow> depth out < depth inp) \<and>
      (\<forall>inp k. depth (inp\<lparr>rest := drop k (rest inp)\<rparr>) \<le> depth inp))"

section \<open>Library instances and archives for the examples\<close>

text \<open>
  The examples run the pipeline on real archive bytes. For that the archive reader is
  instantiated with the reader of the \<open>newc\<close> format as u-root's \<open>cpio\<close> package
  implements it: a header of the magic \<open>070701\<close> and thirteen fields of eight
  hexadecimal digits, the name (ending in a zero byte) padded to a multiple of four,
  and the body, which is not read but handed out as a section. \<open>cpio.Newc.Reader\<close>
  wraps that reader so that the record named \<open>TRAILER!!!\<close> becomes \<open>io.EOF\<close>.
  The reader also cleans the path in the name; the names used here are clean already
  and that step is left out.
\<close>

definition round4 :: "int64 \<Rightarrow> int64" where
  "round4 n = ((n + 3) div 4) * 4"

definition hex_digit :: "char \<Rightarrow> nat option" where
  "hex_digit c =
     (let k = (of_char c :: nat) in
      if 48 \<le> k \<and> k \<le> 57 then Some (k - 48)
      else if 97 \<le> k \<and> k \<le> 102 then Some (k - 87)
      else if 65 \<le> k \<and> k \<le> 70 then Some (k - 55)
      else None)"

fun hex_value :: "nat \<Rightarrow> char list \<Rightarrow> nat option" where
  "hex_value acc [] = Some acc"
| "hex_value acc (c # cs) =
     (case hex_digit c of None \<Rightarrow> None | Some v \<Rightarrow> hex_value (16 * acc + v) cs)"

definition header_field :: "byte list \<Rightarrow> nat \<Rightarrow> nat option" where
  "header_field buf i = hex_value 0 (take 8 (drop (6 + 8 * i) buf))"

definition newc_read :: "cpio_reader \<Rightarrow> nat \<Rightarrow> (error + byte list) \<times> cpio_reader" where
  "newc_read c n =
     (case ReadAt (cr c) n (cpos c) of
        ((p, err), d) \<Rightarrow>
          if err = Some EOF then (Inl EOF, c\<lparr>cr := d\<rparr>)
          else if err \<noteq> None \<or> length p \<noteq> n
          then (Inl (Foreign ''ReadAt: short read''), c\<lparr>cr := d\<rparr>)
          else (Inr p, c\<lparr>cr := d, cpos := cpos c + word_of_nat (length p)\<rparr>))"

definition newc_ReadRecord :: "cpio_reader \<Rightarrow> (error + cpio_Record) \<times> cpio_reader" where
  "newc_ReadRecord c =
     (case newc_read c 110 of
        (Inl err, c1) \<Rightarrow> (Inl err, c1)
      | (Inr buf, c1) \<Rightarrow>
          if take 6 buf \<noteq> ''070701'' then (Inl (Foreign ''reader: bad magic''), c1)
          else (case (hex_value 0 (drop 6 buf), header_field buf 6, header_field buf 11) of
                  (Some _, Some FileSize, Some NameLength) \<Rightarrow>
                    if NameLength = 0 then (Inl (Foreign ''name field of length zero''), c1)
                    else (case newc_read c1 NameLength of
                            (res, c2) \<Rightarrow>
                              let c3 = c2\<lparr>cpos := round4 (cpos c2)\<rparr> in
                              (case res of
                                 Inl err \<Rightarrow> (Inl err, c3)
                               | Inr nameBuf \<Rightarrow>
                                   (Inr \<lparr>Name = take (NameLength - 1) nameBuf,
                                         ReaderAt = SectionReader (cpos c3) (word_of_nat FileSize)\<rparr>,
                                    c3\<lparr>cpos := round4 (cpos c3 + word_of_nat FileSize)\<rparr>)))
                | _ \<Rightarrow> (Inl (Foreign ''reader: error decoding hex''), c1)))"

definition EOFReader_ReadRecord :: "cpio_reader \<Rightarrow> (error + cpio_Record) \<times> cpio_reader" where
  "EOFReader_ReadRecord c =
     (case newc_ReadRecord c of
        (Inl err, c') \<Rightarrow> (Inl err, c')
      | (Inr rec, c') \<Rightarrow> if Name rec = ''TRAILER!!!'' then (Inl EOF, c') else (Inr rec, c'))"

text \<open>
  The decompressors and the YAML decoder are too large to write out. The examples use
  stand-ins that keep their interfaces: a decompressor whose output is the input after
  the four magic bytes (it fails on a shorter input), and a decoder that reads the
  section through the discarder and takes every non-empty line as one layer with that
  line as its extra information.
\<close>

definition stored_NewReader :: "reader \<Rightarrow> error + reader" where
  "stored_NewReader inp =
     (if length (rest inp) < 4 then Inl ErrUnexpectedEOF
      else Inr (inp\<lparr>rest := drop 4 (rest inp)\<rparr>))"

fun split_lines :: "char list \<Rightarrow> char list \<Rightarrow> char list list" where
  "split_lines cur [] = (if cur = [] then [] else [cur])"
| "split_lines cur (c # cs) =
     (if c = CHR 0x0A then (if cur = [] then split_lines [] cs else cur # split_lines [] cs)
      else split_lines (cur @ [c]) cs)"

definition lines_Decode :: "discarder \<Rightarrow> int64 \<Rightarrow> int64 \<Rightarrow> error + Config" where
  "lines_Decode d off n =
     (case ReadAt d (unat n) off of
        ((p, Some err), _) \<Rightarrow> Inl err
      | ((p, None), _) \<Rightarrow>
          Inr \<lparr>Layers = map (\<lambda>l. \<lparr>Metadata = \<lparr>ExtraInfo = l\<rparr>\<rparr>) (split_lines [] p)\<rparr>)"

definition example_libs :: libs where
  "example_libs =
     \<lparr>xz_NewReader = stored_NewReader, zstd_NewReader = stored_NewReader,
      ReadRecord = EOFReader_ReadRecord, yaml_Decode = lines_Decode\<rparr>"

text \<open>
  Archive bytes: a header with the given file size and name size, the archive that
  holds only the trailer, and a record named \<open>extensions.yaml\<close> with a given body
  (whose length is the file size and a multiple of four).
\<close>

definition NUL :: byte where
  "NUL = CHR 0x00"

definition newc_header :: "string \<Rightarrow> string \<Rightarrow> byte list" where
  "newc_header filesize namesize =
     ''070701'' @ ''00000000'' @ ''000081A4'' @ ''00000000'' @ ''00000000'' @ ''00000001''
       @ ''00000000'' @ filesize @ ''00000000'' @ ''00000000'' @ ''00000000'' @ ''00000000''
       @ namesize @ ''00000000''"

definition trailer_archive :: "byte list" where
  "trailer_archive =
     newc_header ''00000000'' ''0000000B'' @ ''TRAILER!!!'' @ [NUL] @ [NUL, NUL, NUL]"

definition extensions_record :: "string \<Rightarrow> byte list \<Rightarrow> byte list" where
  "extensions_record filesize body =
     newc_header filesize ''00000010'' @ ''extensions.yaml'' @ [NUL] @ [NUL, NUL] @ body"

definition two_layers :: "byte list" where
  "two_layers = ''alpha'' @ [CHR 0x0A] @ ''hello'' @ [CHR 0x0A]"

definition other_layers :: "byte list" where
  "other_layers = ''other'' @ [CHR 0x0A] @ ''world'' @ [CHR 0x0A]"

definition zstd_magic :: "byte list" where
  "zstd_magic = [CHR 0x28, CHR 0xB5, CHR 0x2F, CHR 0xFD]"

text \<open>
  Artifacts: two records named \<open>extensions.yaml\<close> with different bodies followed by
  the trailer, with the first record and the archive reader right after its header and
  name have been read; and a layer that holds only the trailer, followed by a second
  compressed layer that holds the record.
\<close>

definition two_matches :: "byte list" where
  "two_matches =
     extensions_record ''0000000C'' two_layers @
     extensions_record ''0000000C'' other_layers @ trailer_archive"

definition first_record :: cpio_Record where
  "first_record = \<lparr>Name = ''extensions.yaml'', ReaderAt = SectionReader 128 12\<rparr>"

definition after_first_header :: cpio_reader where
  "after_first_header =
     \<lparr>cr = \<lparr>rdr = \<lparr>rest = NUL # NUL # two_layers @
                           extensions_record ''0000000C'' other_layers @ trailer_archive,
                    fin = EOF\<rparr>,
             pos = 126\<rparr>,
      cpos = 140\<rparr>"

definition inner_layer :: "byte list" where
  "inner_layer = extensions_record ''0000000C'' two_layers @ trailer_archive"

definition nested_layers :: "byte list" where
  "nested_layers = zstd_magic @ trailer_archive @ zstd_magic @ inner_layer"

definition outer_decoder :: reader where
  "outer_decoder = \<lparr>rest = trailer_archive @ zstd_magic @ inner_layer, fin = EOF\<rparr>"

definition inner_decoder :: reader where
  "inner_decoder = \<lparr>rest = inner_layer, fin = EOF\<rparr>"

definition after_inner_header :: cpio_reader where
  "after_inner_header =
     \<lparr>cr = \<lparr>rdr = \<lparr>rest = NUL # NUL # two_layers @ trailer_archive, fin = EOF\<rparr>, pos = 126\<rparr>,
      cpos = 140\<rparr>"

text \<open>
  An artifact of two layers. The first, not compressed, holds a record named \<open>init\<close>
  and the trailer. The second, compressed, holds a record named \<open>init\<close>, then the
  two records named \<open>extensions.yaml\<close> of above, then the trailer. With it: the
  record named \<open>init\<close> and the archive reader after it, the first record named
  \<open>extensions.yaml\<close> and the archive reader after its header and name, and the first
  layer as it is passed.
\<close>

definition other_record :: "byte list" where
  "other_record = newc_header ''00000004'' ''00000005'' @ ''init'' @ [NUL] @ [NUL] @ ''boot''"

definition init_record :: cpio_Record where
  "init_record = \<lparr>Name = ''init'', ReaderAt = SectionReader 116 4\<rparr>"

definition after_other :: "byte list \<Rightarrow> cpio_reader" where
  "after_other after =
     \<lparr>cr = \<lparr>rdr = \<lparr>rest = NUL # ''boot'' @ after, fin = EOF\<rparr>, pos = 115\<rparr>, cpos = 120\<rparr>"

definition first_match :: cpio_Record where
  "first_match = \<lparr>Name = ''extensions.yaml'', ReaderAt = SectionReader 248 12\<rparr>"

definition after_first_match :: cpio_reader where
  "after_first_match =
     \<lparr>cr = \<lparr>rdr = \<lparr>rest = NUL # NUL # two_layers @
                           extensions_record ''0000000C'' other_layers @ trailer_archive,
                    fin = EOF\<rparr>,
             pos = 246\<rparr>,
      cpos = 260\<rparr>"

definition second_layer :: "byte list" where
  "second_layer = other_record @ two_matches"

definition layered_matches :: "byte list" where
  "layered_matches = other_record @ trailer_archive @ zstd_magic @ second_layer"

definition first_layer_end :: cpio_reader where
  "first_layer_end =
     \<lparr>cr = \<lparr>rdr = \<lparr>rest = NUL # NUL # NUL # zstd_magic @ second_layer, fin = EOF\<rparr>, pos = 241\<rparr>,
      cpos = 244\<rparr>"

definition first_layer :: passed_layer where
  "first_layer =
     ((BufioReader \<lparr>rest = layered_matches, fin = EOF\<rparr>, no_op),
      [(init_record, after_other (trailer_archive @ zstd_magic @ second_layer))],
      first_layer_end)"

definition second_decoder :: reader where
  "second_decoder = \<lparr>rest = second_layer, fin = EOF\<rparr>"

section \<open>The discarder: reads in forward order\<close>

lemma sint_word_of_nat_64:
  "k < 2 ^ 63 \<Longrightarrow> sint (word_of_nat k :: int64) = int k"
  by (simp add: signed_of_nat signed_take_bit_int_eq_self)

lemma word_of_nat_eq_64:
  "k < 2 ^ 63 \<Longrightarrow> c < 2 ^ 63 \<Longrightarrow> (word_of_nat k :: int64) = word_of_nat c \<longleftrightarrow> k = c"
  by (simp add: word_of_nat_eq_iff take_bit_nat_eq_self)

lemma sint_diff_nonneg:
  fixes off p :: int64
  assumes "0 \<le> sint off" "0 \<le> sint p"
  shows "sint (off - p) = sint off - sint p"
proof -
  have "sint off < 2 ^ 63" "sint p < 2 ^ 63"
    using sint_lt [of off] sint_lt [of p] by simp_all
  with assms have "- (2 ^ 63) \<le> sint off - sint p" "sint off - sint p < 2 ^ 63" by simp_all
  then show ?thesis
    by (simp add: sint_word_diff signed_take_bit_int_eq_self)
qed

lemma Copy_Discard_LimitReader_enough:
  "0 < j \<Longrightarrow> j \<le> length (rest inp) \<Longrightarrow>
   Copy_Discard_LimitReader inp (int j) = ((int j, None), inp\<lparr>rest := drop j (rest inp)\<rparr>)"
  by (simp add: Copy_Discard_LimitReader_def)

lemma ReadFull_enough:
  "n \<le> length (rest inp) \<Longrightarrow>
   ReadFull inp n = ((take n (rest inp), None), inp\<lparr>rest := drop n (rest inp)\<rparr>)"
  by (simp add: ReadFull_def)

text \<open>A read at the cursor takes the next \<open>n\<close> bytes.\<close>

lemma ReadAt_at_cursor:
  "n \<le> length (rest (rdr d)) \<Longrightarrow>
   ReadAt d n (pos d) =
     ((take n (rest (rdr d)), None),
      d\<lparr>rdr := (rdr d)\<lparr>rest := drop n (rest (rdr d))\<rparr>, pos := pos d + word_of_nat n\<rparr>)"
  by (simp add: ReadAt_def ReadFull_enough)

text \<open>A read \<open>j\<close> bytes ahead of the cursor drops \<open>j\<close> bytes and takes the next \<open>n\<close>.\<close>

lemma ReadAt_ahead:
  assumes "sint (off - pos d) = int j" "0 < j" "j + n \<le> length (rest (rdr d))"
  shows "ReadAt d n off =
     ((take n (drop j (rest (rdr d))), None),
      d\<lparr>rdr := (rdr d)\<lparr>rest := drop (j + n) (rest (rdr d))\<rparr>,
        pos := pos d + word_of_nat j + word_of_nat n\<rparr>)"
proof -
  have ne: "off \<noteq> pos d" using assms(1,2) by auto
  have j: "j \<le> length (rest (rdr d))" using assms(3) by simp
  have n: "n \<le> length (rest (rdr d)) - j" using assms(3) by simp
  show ?thesis
    unfolding ReadAt_def assms(1)
    using ne assms(2) n
    by (simp add: Copy_Discard_LimitReader_enough [OF assms(2) j] ReadFull_enough add.commute)
qed

lemma ReadAt_slice:
  assumes len: "length xs < 2 ^ 63"
      and cur: "pos d = word_of_nat c" "rest (rdr d) = drop c xs"
      and req: "c \<le> k" "k + n \<le> length xs"
  shows "ReadAt d n (word_of_nat k) =
           ((take n (drop k xs), None),
            d\<lparr>rdr := (rdr d)\<lparr>rest := drop (k + n) xs\<rparr>, pos := word_of_nat (k + n)\<rparr>)"
proof (cases "k = c")
  case True
  have "n \<le> length (rest (rdr d))" using req True by (simp add: cur)
  from ReadAt_at_cursor [OF this] show ?thesis
    using True by (simp add: cur add.commute)
next
  case False
  have k63: "k - c < 2 ^ 63" using len req by auto
  have "word_of_nat k - pos d = (word_of_nat (k - c) :: int64)"
    using req by (simp add: cur)
  then have diff: "sint (word_of_nat k - pos d) = int (k - c)"
    using sint_word_of_nat_64 [OF k63] by simp
  have "0 < k - c" "(k - c) + n \<le> length (rest (rdr d))"
    using req False by (auto simp: cur)
  from ReadAt_ahead [OF diff this] show ?thesis
    using req by (simp add: cur add.commute)
qed

lemma ReadAt_seq_forward:
  assumes "length xs < 2 ^ 63"
  shows "at_cursor xs c d \<Longrightarrow> forward_requests c (length xs) reqs \<Longrightarrow>
     ReadAt_seq d (map (\<lambda>(n, k). (n, word_of_nat k)) reqs) =
       (map (\<lambda>(n, k). (take n (drop k xs), None)) reqs,
        d\<lparr>rdr := (rdr d)\<lparr>rest := drop (final_cursor c reqs) xs\<rparr>,
          pos := word_of_nat (final_cursor c reqs)\<rparr>)"
proof (induction reqs arbitrary: c d)
  case Nil
  then show ?case by (simp add: at_cursor_def)
next
  case (Cons req reqs)
  obtain n k where req: "req = (n, k)" by (cases req)
  let ?d' = "d\<lparr>rdr := (rdr d)\<lparr>rest := drop (k + n) xs\<rparr>, pos := word_of_nat (k + n)\<rparr>"
  from Cons.prems have cur: "pos d = word_of_nat c" "rest (rdr d) = drop c xs"
    and ok: "c \<le> k" "k + n \<le> length xs" and more: "forward_requests (k + n) (length xs) reqs"
    by (simp_all add: at_cursor_def req)
  have step: "ReadAt d n (word_of_nat k) = ((take n (drop k xs), None), ?d')"
    by (rule ReadAt_slice [OF assms cur ok])
  have "at_cursor xs (k + n) ?d'" by (simp add: at_cursor_def)
  from Cons.IH [OF this more] show ?case
    by (simp add: req step)
qed

text \<open>
  C2, as stated, fails. On the eight bytes \<open>abcdefgh\<close> the requests (4 bytes at offset
  0) and (4 bytes at offset 2) have non-decreasing offsets inside the stream, yet the
  second one is refused: after the first read the cursor is 4, and offset 2 lies before it.
\<close>

theorem ReadAt_overlapping_offsets_refused:
  "fst (ReadAt_seq (new_discarder \<lparr>rest = ''abcdefgh'', fin = EOF\<rparr>) [(4, 0), (4, 2)]) =
     [(''abcd'', None), ([], Some ErrNegativeSeek)]"
  by (simp add: new_discarder_def ReadAt_def ReadFull_def Copy_Discard_LimitReader_def)

text \<open>
  C2, amended. Let the stream hold \<open>xs\<close> (fewer than \<open>2^63\<close> bytes) and the discarder
  have consumed its first \<open>c\<close> bytes. For every sequence of requests in which each
  offset is at or after the cursor left by the request before it (the offset plus the
  length of that request) and each range \<open>[offset, offset + length)\<close> lies inside the
  stream, every request returns exactly the bytes of \<open>xs\<close> in its range with no error,
  the bytes between the cursor and the offset are dropped, and the cursor ends at
  offset plus length of the last request.
\<close>

theorem ReadAt_seq_forward_slices:
  assumes "length xs < 2 ^ 63"
      and "at_cursor xs c d"
      and "forward_requests c (length xs) reqs"
  shows "ReadAt_seq d (map (\<lambda>(n, k). (n, word_of_nat k)) reqs) =
           (map (\<lambda>(n, k). (take n (drop k xs), None)) reqs,
            d\<lparr>rdr := (rdr d)\<lparr>rest := drop (final_cursor c reqs) xs\<rparr>,
              pos := word_of_nat (final_cursor c reqs)\<rparr>)"
  using assms by (rule ReadAt_seq_forward)

theorem ReadAt_seq_forward_slices_witness:
  "length ''abcdefgh'' < 2 ^ 63 \<and>
   at_cursor ''abcdefgh'' 0 (new_discarder \<lparr>rest = ''abcdefgh'', fin = EOF\<rparr>) \<and>
   forward_requests 0 (length ''abcdefgh'') [(2, 0), (3, 4)] \<and>
   ReadAt_seq (new_discarder \<lparr>rest = ''abcdefgh'', fin = EOF\<rparr>) [(2, 0), (3, 4)] =
     ([(''ab'', None), (''efg'', None)], \<lparr>rdr = \<lparr>rest = ''h'', fin = EOF\<rparr>, pos = 7\<rparr>)"
proof -
  have h1: "length ''abcdefgh'' < 2 ^ 63" by simp
  have h2: "at_cursor ''abcdefgh'' 0 (new_discarder \<lparr>rest = ''abcdefgh'', fin = EOF\<rparr>)"
    by (simp add: at_cursor_def new_discarder_def)
  have h3: "forward_requests 0 (length ''abcdefgh'') [(2, 0), (3, 4)]" by simp
  show ?thesis
    using h1 h2 h3 ReadAt_seq_forward_slices [OF h1 h2 h3]
    by (simp add: new_discarder_def)
qed

section \<open>The discarder: reads that cannot be served\<close>

text \<open>A backward request with a non-negative offset is refused and changes nothing.\<close>

lemma ReadAt_backward:
  assumes "0 \<le> sint off" "sint off < sint (pos d)"
  shows "ReadAt d n off = (([], Some ErrNegativeSeek), d)"
proof -
  have "sint (off - pos d) = sint off - sint (pos d)"
    using assms by (intro sint_diff_nonneg) simp_all
  then show ?thesis using assms by (simp add: ReadAt_def)
qed

text \<open>When the bytes up to the offset are there but the \<open>n\<close> after it are not, the read fails.\<close>

lemma ReadAt_short_at_offset:
  assumes "sint (off - pos d) = int j" "j \<le> length (rest (rdr d))"
      and "length (rest (rdr d)) < j + n"
  shows "\<exists>e. snd (fst (ReadAt d n off)) = Some e"
proof (cases "j = 0")
  case True
  then have "off - pos d = 0" using assms(1) by (simp add: signed_eq_0_iff)
  then have "off = pos d" by simp
  then show ?thesis using assms True by (simp add: ReadAt_def ReadFull_def)
next
  case False
  then have ne: "off \<noteq> pos d" using assms(1) by auto
  show ?thesis
    unfolding ReadAt_def assms(1)
    using ne assms(2,3) False by (simp add: Copy_Discard_LimitReader_def ReadFull_def)
qed

text \<open>When the stream ends before the offset is reached, the read returns no bytes and no error.\<close>

lemma ReadAt_discard_hits_EOF:
  assumes "sint (off - pos d) = int j" "length (rest (rdr d)) < j" "fin (rdr d) = EOF"
  shows "ReadAt d n off = (([], None), d\<lparr>rdr := (rdr d)\<lparr>rest := []\<rparr>\<rparr>)"
proof -
  have ne: "off \<noteq> pos d" using assms(1,2) by auto
  show ?thesis
    unfolding ReadAt_def assms(1)
    using ne assms(2,3) by (simp add: Copy_Discard_LimitReader_def)
qed

text \<open>
  C7: the code at a failing input. A fresh discarder over the three bytes \<open>abc\<close> is
  asked for 2 bytes at offset 5. The stream ends while the five bytes before the offset
  are dropped; \<open>ReadAt\<close> returns 0 bytes and a nil error instead of a short-read error.
\<close>

theorem ReadAt_past_end_returns_no_error:
  "ReadAt (new_discarder \<lparr>rest = ''abc'', fin = EOF\<rparr>) 2 5 =
     (([], None), \<lparr>rdr = \<lparr>rest = [], fin = EOF\<rparr>, pos = 0\<rparr>)"
  by (simp add: new_discarder_def ReadAt_def ReadFull_def Copy_Discard_LimitReader_def)

theorem ReadAt_past_end_returns_no_error_witness:
  "snd (fst (ReadAt (new_discarder \<lparr>rest = ''abc'', fin = EOF\<rparr>) 2 5)) = None \<and>
   length (fst (fst (ReadAt (new_discarder \<lparr>rest = ''abc'', fin = EOF\<rparr>) 2 5))) < 2"
  using ReadAt_past_end_returns_no_error by simp

text \<open>
  C8: the code at a failing input. After one byte has been read the cursor is 1. A
  request at offset \<open>-2^63\<close> lies before the cursor, but \<open>off - r.pos\<close> wraps around
  to \<open>2^63 - 1\<close>, so the test for a backward seek does not fire: the rest of the
  stream is dropped and \<open>ReadAt\<close> returns 0 bytes and a nil error.
\<close>

theorem ReadAt_wrapped_offset_not_refused:
  "ReadAt_seq (new_discarder \<lparr>rest = ''ab'', fin = EOF\<rparr>)
     [(1, 0), (1, - 9223372036854775808)] =
     ([(''a'', None), ([], None)], \<lparr>rdr = \<lparr>rest = [], fin = EOF\<rparr>, pos = 1\<rparr>)"
  by (simp add: new_discarder_def ReadAt_def ReadFull_def Copy_Discard_LimitReader_def)

theorem ReadAt_wrapped_offset_not_refused_witness:
  "sint (- 9223372036854775808 :: int64) < sint (1 :: int64) \<and>
   map snd (fst (ReadAt_seq (new_discarder \<lparr>rest = ''ab'', fin = EOF\<rparr>)
     [(1, 0), (1, - 9223372036854775808)])) = [None, None]"
  using ReadAt_wrapped_offset_not_refused by simp

section \<open>The compression sniffer\<close>

text \<open>The loop in \<open>run\<close> sniffs in the same way; it only keeps no close function.\<close>

lemma run_sniff_eq:
  "run_sniff L inp = map_sum id fst (decompressingReadCloser L inp)"
  by (simp add: run_sniff_def decompressingReadCloser_def split: sum.splits)

text \<open>
  C6. On a stream with at least 4 bytes the sniffer calls the XZ constructor when the
  first four bytes are \<open>FD 37 7A 58\<close> and returns its reader (or its error), calls the
  Zstandard constructor when they are \<open>28 B5 2F FD\<close> and returns its decoder (or its
  error), and otherwise returns the reader it was given, unchanged, so that no byte has
  been consumed. Conversely an XZ reader comes back only for the XZ magic and a
  Zstandard decoder only for the Zstandard magic.
\<close>

theorem decompressingReadCloser_by_magic:
  assumes "4 \<le> length (rest inp)"
  shows "(take 4 (rest inp) = [CHR 0xFD, CHR ''7'', CHR ''z'', CHR ''X''] \<longrightarrow>
            decompressingReadCloser L inp =
              (case xz_NewReader L inp of
                 Inl err \<Rightarrow> Inl err | Inr x \<Rightarrow> Inr (XzReader x, no_op))) \<and>
         (take 4 (rest inp) = [CHR 0x28, CHR 0xB5, CHR 0x2F, CHR 0xFD] \<longrightarrow>
            decompressingReadCloser L inp =
              (case zstd_NewReader L inp of
                 Inl err \<Rightarrow> Inl err | Inr z \<Rightarrow> Inr (ZstdDecoder z, Decoder_Close z))) \<and>
         (take 4 (rest inp) \<noteq> [CHR 0xFD, CHR ''7'', CHR ''z'', CHR ''X''] \<and>
          take 4 (rest inp) \<noteq> [CHR 0x28, CHR 0xB5, CHR 0x2F, CHR 0xFD] \<longrightarrow>
            decompressingReadCloser L inp = Inr (BufioReader inp, no_op) \<and>
            bufio_NewReader (BufioReader inp) = inp) \<and>
         (\<forall>x c. decompressingReadCloser L inp = Inr (XzReader x, c) \<longrightarrow>
            take 4 (rest inp) = [CHR 0xFD, CHR ''7'', CHR ''z'', CHR ''X'']) \<and>
         (\<forall>z c. decompressingReadCloser L inp = Inr (ZstdDecoder z, c) \<longrightarrow>
            take 4 (rest inp) = [CHR 0x28, CHR 0xB5, CHR 0x2F, CHR 0xFD])"
  using assms
  by (auto simp: decompressingReadCloser_def Peek_def split: sum.splits if_splits)

theorem decompressingReadCloser_by_magic_witness:
  "4 \<le> length (rest \<lparr>rest = [CHR 0xFD, CHR ''7'', CHR ''z'', CHR ''X''] @ ''data'', fin = EOF\<rparr>) \<and>
   decompressingReadCloser example_libs
       \<lparr>rest = [CHR 0xFD, CHR ''7'', CHR ''z'', CHR ''X''] @ ''data'', fin = EOF\<rparr> =
     Inr (XzReader \<lparr>rest = ''data'', fin = EOF\<rparr>, no_op) \<and>
   4 \<le> length (rest \<lparr>rest = [CHR 0x28, CHR 0xB5, CHR 0x2F, CHR 0xFD] @ ''data'', fin = EOF\<rparr>) \<and>
   decompressingReadCloser example_libs
       \<lparr>rest = [CHR 0x28, CHR 0xB5, CHR 0x2F, CHR 0xFD] @ ''data'', fin = EOF\<rparr> =
     Inr (ZstdDecoder \<lparr>rest = ''data'', fin = EOF\<rparr>, Decoder_Close \<lparr>rest = ''data'', fin = EOF\<rparr>) \<and>
   4 \<le> length (rest \<lparr>rest = ''070701 data'', fin = EOF\<rparr>) \<and>
   decompressingReadCloser example_libs \<lparr>rest = ''070701 data'', fin = EOF\<rparr> =
     Inr (BufioReader \<lparr>rest = ''070701 data'', fin = EOF\<rparr>, no_op)"
proof -
  have h1: "4 \<le> length (rest \<lparr>rest = [CHR 0xFD, CHR ''7'', CHR ''z'', CHR ''X''] @ ''data'', fin = EOF\<rparr>)"
    by simp
  have h2: "4 \<le> length (rest \<lparr>rest = [CHR 0x28, CHR 0xB5, CHR 0x2F, CHR 0xFD] @ ''data'', fin = EOF\<rparr>)"
    by simp
  have h3: "4 \<le> length (rest \<lparr>rest = ''070701 data'', fin = EOF\<rparr>)"
    by simp
  show ?thesis
    using decompressingReadCloser_by_magic [OF h1, of example_libs]
      decompressingReadCloser_by_magic [OF h2, of example_libs]
      decompressingReadCloser_by_magic [OF h3, of example_libs]
    by (simp add: example_libs_def stored_NewReader_def)
qed

section \<open>The member decoder\<close>

text \<open>
  C1. When the decoder returns a configuration whose list of layers is not empty,
  \<open>parseRawFromExtensions\<close> returns the extra information of the last layer of the
  list, and nothing of any other layer. The block inside \<open>run\<close> logs the same text.
\<close>

theorem parseRawFromExtensions_last_layer:
  assumes "yaml_Decode L d off n = Inr cfg" and "Layers cfg \<noteq> []"
  shows "parseRawFromExtensions L d (SectionReader off n) =
           Inr (ExtraInfo (Metadata (last (Layers cfg)))) \<and>
         run_found L d (SectionReader off n) =
           Inr (ExtraInfo (Metadata (last (Layers cfg))))"
  using assms by (simp add: parseRawFromExtensions_def run_found_def last_conv_nth)

lemma lines_Decode_two_layers:
  "lines_Decode (new_discarder \<lparr>rest = two_layers, fin = EOF\<rparr>) 0 12 =
     Inr \<lparr>Layers = [\<lparr>Metadata = \<lparr>ExtraInfo = ''alpha''\<rparr>\<rparr>, \<lparr>Metadata = \<lparr>ExtraInfo = ''hello''\<rparr>\<rparr>]\<rparr>"
  by (simp add: lines_Decode_def new_discarder_def ReadAt_def ReadFull_def two_layers_def)

theorem parseRawFromExtensions_last_layer_witness:
  "yaml_Decode example_libs (new_discarder \<lparr>rest = two_layers, fin = EOF\<rparr>) 0 12 =
     Inr \<lparr>Layers = [\<lparr>Metadata = \<lparr>ExtraInfo = ''alpha''\<rparr>\<rparr>, \<lparr>Metadata = \<lparr>ExtraInfo = ''hello''\<rparr>\<rparr>]\<rparr> \<and>
   parseRawFromExtensions example_libs (new_discarder \<lparr>rest = two_layers, fin = EOF\<rparr>)
     (SectionReader 0 12) = Inr ''hello'' \<and>
   run_found example_libs (new_discarder \<lparr>rest = two_layers, fin = EOF\<rparr>)
     (SectionReader 0 12) = Inr ''hello''"
proof -
  have h: "yaml_Decode example_libs (new_discarder \<lparr>rest = two_layers, fin = EOF\<rparr>) 0 12 =
     Inr \<lparr>Layers = [\<lparr>Metadata = \<lparr>ExtraInfo = ''alpha''\<rparr>\<rparr>, \<lparr>Metadata = \<lparr>ExtraInfo = ''hello''\<rparr>\<rparr>]\<rparr>"
    by (simp add: example_libs_def lines_Decode_two_layers)
  show ?thesis using h parseRawFromExtensions_last_layer [OF h] by simp
qed

text \<open>
  C4. When the decoder returns a configuration with no layers,
  \<open>parseRawFromExtensions\<close> fails with its own error, "extensions.yaml has no
  layers". The block inside \<open>run\<close> has no such test: it indexes the empty list at
  \<open>len - 1 = -1\<close> and the program panics.
\<close>

theorem empty_layers_error_or_panic:
  assumes "yaml_Decode L d off n = Inr cfg" and "Layers cfg = []"
  shows "parseRawFromExtensions L d (SectionReader off n) = Inl ErrNoLayers \<and>
         run_found L d (SectionReader off n) = Inl PanicIndexOutOfRange"
  using assms by (simp add: parseRawFromExtensions_def run_found_def)

lemma lines_Decode_empty:
  "lines_Decode (new_discarder \<lparr>rest = [], fin = EOF\<rparr>) 0 0 = Inr \<lparr>Layers = []\<rparr>"
  by (simp add: lines_Decode_def new_discarder_def ReadAt_def ReadFull_def)

theorem empty_layers_error_or_panic_witness:
  "yaml_Decode example_libs (new_discarder \<lparr>rest = [], fin = EOF\<rparr>) 0 0 = Inr \<lparr>Layers = []\<rparr> \<and>
   parseRawFromExtensions example_libs (new_discarder \<lparr>rest = [], fin = EOF\<rparr>)
     (SectionReader 0 0) = Inl ErrNoLayers \<and>
   run_found example_libs (new_discarder \<lparr>rest = [], fin = EOF\<rparr>)
     (SectionReader 0 0) = Inl PanicIndexOutOfRange"
proof -
  have h: "yaml_Decode example_libs (new_discarder \<lparr>rest = [], fin = EOF\<rparr>) 0 0 = Inr \<lparr>Layers = []\<rparr>"
    by (simp add: example_libs_def lines_Decode_empty)
  show ?thesis using h empty_layers_error_or_panic [OF h] by simp
qed

section \<open>The loops of the driver\<close>

lemmas read_records_induct = read_records.raw_induct [rotated 1, consumes 1, case_names step]
lemmas extract_loop_induct = extract_loop.raw_induct [rotated 1, consumes 1, case_names step]
lemmas run_records_induct = run_records.raw_induct [rotated 1, consumes 1, case_names step]
lemmas run_loop_induct = run_loop.raw_induct [rotated 1, consumes 1, case_names step]

lemma no_match_snoc: "no_match (tr @ [e]) \<longleftrightarrow> no_match tr \<and> \<not> is_match e"
  by (auto simp: no_match_def)

text \<open>
  As long as no record named \<open>extensions.yaml\<close> has been found, the inner loop either
  breaks with still none found, or returns; when it returns after a match, the match is
  the last event and its decoding is the value.
\<close>

lemma read_records_first_match:
  assumes "read_records L c tr = Some exit"
  shows "no_match tr \<longrightarrow>
     (case exit of
        Break c' tr' \<Rightarrow> no_match tr'
      | Return res tr' \<Rightarrow> first_match_result (parseRawFromExtensions L) res tr')"
  using assms
proof (induct rule: read_records_induct)
  case (step rr L c tr exit)
  show ?case
  proof
    assume nm: "no_match tr"
    obtain r c' where rc: "ReadRecord L c = (r, c')" by (cases "ReadRecord L c")
    show "case exit of Break c' tr' \<Rightarrow> no_match tr'
          | Return res tr' \<Rightarrow> first_match_result (parseRawFromExtensions L) res tr'"
    proof (cases r)
      case (Inl err)
      with step(2) rc nm show ?thesis
        by (auto simp: first_match_result_def split: if_splits)
    next
      case (Inr rec)
      show ?thesis
      proof (cases "Name rec = extensionsYAMLFileName")
        case True
        with step(2) rc Inr nm show ?thesis
          by (auto simp: first_match_result_def)
      next
        case False
        with step(2) rc Inr have "rr L c' (tr @ [Found rec c']) = Some exit" by simp
        moreover have "no_match (tr @ [Found rec c'])"
          using nm False by (simp add: no_match_snoc)
        ultimately show ?thesis using step(1) by blast
      qed
    qed
  qed
qed

lemma extract_loop_first_match:
  assumes "extract_loop L cfs tr reader = Some out"
  shows "no_match tr \<longrightarrow> first_match_result (parseRawFromExtensions L) (fst out) (fst (snd out))"
  using assms
proof (induct rule: extract_loop_induct)
  case (step el L cfs tr reader out)
  show ?case
  proof
    assume nm: "no_match tr"
    show "first_match_result (parseRawFromExtensions L) (fst out) (fst (snd out))"
    proof (cases "decompressingReadCloser L reader")
      case (Inl err)
      with step(2) nm show ?thesis by (auto simp: first_match_result_def)
    next
      case (Inr p)
      obtain decReader closeFunc where p: "p = (decReader, closeFunc)" by (cases p)
      let ?c = "Newc_Reader (new_discarder (bufio_NewReader decReader))"
      from step(2) Inr p obtain exit where
        ex: "read_records L ?c (tr @ [Acquired closeFunc]) = Some exit"
        by (auto simp: bind_eq_Some_conv)
      have nm': "no_match (tr @ [Acquired closeFunc])" using nm by (simp add: no_match_snoc)
      from read_records_first_match [OF ex] nm'
      have inv: "case exit of Break c' tr' \<Rightarrow> no_match tr'
                 | Return res tr' \<Rightarrow> first_match_result (parseRawFromExtensions L) res tr'"
        by blast
      show ?thesis
      proof (cases exit)
        case (Return res tr')
        with step(2) Inr p ex inv show ?thesis by auto
      next
        case (Break c' tr')
        obtain e reader' where ep: "eatPadding (rdr (cr c')) = (e, reader')"
          by (cases "eatPadding (rdr (cr c'))")
        show ?thesis
        proof (cases e)
          case None
          with step(2) Inr p ex Break ep
          have "el L (cfs @ [closeFunc]) tr' reader' = Some out" by simp
          moreover have "no_match tr'" using inv Break by simp
          ultimately show ?thesis using step(1) by blast
        next
          case (Some err)
          with step(2) Inr p ex Break ep inv show ?thesis
            by (auto simp: first_match_result_def)
        qed
      qed
    qed
  qed
qed

text \<open>The same for the loops inside \<open>run\<close>, with the decoding done in place.\<close>

lemma run_records_first_match:
  assumes "run_records L c tr = Some exit"
  shows "no_match tr \<longrightarrow>
     (case exit of
        Break c' tr' \<Rightarrow> no_match tr'
      | Return res tr' \<Rightarrow> first_match_result (run_found L) res tr')"
  using assms
proof (induct rule: run_records_induct)
  case (step rr L c tr exit)
  show ?case
  proof
    assume nm: "no_match tr"
    obtain r c' where rc: "ReadRecord L c = (r, c')" by (cases "ReadRecord L c")
    show "case exit of Break c' tr' \<Rightarrow> no_match tr'
          | Return res tr' \<Rightarrow> first_match_result (run_found L) res tr'"
    proof (cases r)
      case (Inl err)
      with step(2) rc nm show ?thesis
        by (auto simp: first_match_result_def split: if_splits)
    next
      case (Inr rec)
      show ?thesis
      proof (cases "Name rec = ''extensions.yaml''")
        case True
        with step(2) rc Inr nm show ?thesis
          by (auto simp: first_match_result_def extensionsYAMLFileName_def)
      next
        case False
        with step(2) rc Inr have "rr L c' (tr @ [Found rec c']) = Some exit" by simp
        moreover have "no_match (tr @ [Found rec c'])"
          using nm False by (simp add: no_match_snoc extensionsYAMLFileName_def)
        ultimately show ?thesis using step(1) by blast
      qed
    qed
  qed
qed

lemma run_loop_first_match:
  assumes "run_loop L tr inp = Some out"
  shows "no_match tr \<longrightarrow> first_match_result (run_found L) (fst out) (snd out)"
  using assms
proof (induct rule: run_loop_induct)
  case (step rl L tr inp out)
  show ?case
  proof
    assume nm: "no_match tr"
    show "first_match_result (run_found L) (fst out) (snd out)"
    proof (cases "run_sniff L inp")
      case (Inl err)
      with step(2) nm show ?thesis by (auto simp: first_match_result_def)
    next
      case (Inr decReader)
      let ?c = "Newc_Reader (new_discarder (bufio_NewReader decReader))"
      from step(2) Inr obtain exit where ex: "run_records L ?c tr = Some exit"
        by (auto simp: bind_eq_Some_conv)
      from run_records_first_match [OF ex] nm
      have inv: "case exit of Break c' tr' \<Rightarrow> no_match tr'
                 | Return res tr' \<Rightarrow> first_match_result (run_found L) res tr'"
        by blast
      show ?thesis
      proof (cases exit)
        case (Return res tr')
        with step(2) Inr ex inv show ?thesis by auto
      next
        case (Break c' tr')
        obtain e inp' where ep: "eatPadding (rdr (cr c')) = (e, inp')"
          by (cases "eatPadding (rdr (cr c'))")
        show ?thesis
        proof (cases e)
          case None
          with step(2) Inr ex Break ep have "rl L tr' inp' = Some out" by simp
          moreover have "no_match tr'" using inv Break by simp
          ultimately show ?thesis using step(1) by blast
        next
          case (Some err)
          with step(2) Inr ex Break ep inv show ?thesis
            by (auto simp: first_match_result_def)
        qed
      qed
    qed
  qed
qed

text \<open>
  What the loops do on an artifact whose records are known. When the archive reader
  delivers records with other names and then one named \<open>extensions.yaml\<close>, the
  inner loop returns the decoding of that record; when it delivers records with other
  names and then \<open>io.EOF\<close>, the inner loop breaks. The outer loop passes each layer
  without the record and goes on with the stream behind it.
\<close>

lemma no_match_Nil: "no_match []"
  by (simp add: no_match_def)

lemma no_match_Cons: "no_match (e # tr) \<longleftrightarrow> \<not> is_match e \<and> no_match tr"
  by (auto simp: no_match_def)

lemma no_match_append: "no_match (tr @ tr') \<longleftrightarrow> no_match tr \<and> no_match tr'"
  by (auto simp: no_match_def)

lemma read_records_match:
  assumes "delivers L c (others @ [(rec, c')])"
      and "no_match (found_events others)"
      and "Name rec = extensionsYAMLFileName"
  shows "read_records L c tr =
           Some (Return (parseRawFromExtensions L (cr c') (ReaderAt rec))
                   (tr @ found_events others @ [Found rec c']))"
  using assms
proof (induction others arbitrary: c tr)
  case Nil
  then show ?case by (subst read_records.simps) (simp add: found_events_def)
next
  case (Cons p os)
  obtain r x where p: "p = (r, x)" by (cases p)
  from Cons.prems p have rd: "ReadRecord L c = (Inr r, x)"
    and d: "delivers L x (os @ [(rec, c')])"
    and n: "Name r \<noteq> extensionsYAMLFileName"
    and nm: "no_match (found_events os)"
    by (simp_all add: found_events_def no_match_Cons)
  have "read_records L c tr = read_records L x (tr @ [Found r x])"
    by (subst read_records.simps) (simp add: rd n)
  also have "\<dots> = Some (Return (parseRawFromExtensions L (cr c') (ReaderAt rec))
                   ((tr @ [Found r x]) @ found_events os @ [Found rec c']))"
    by (rule Cons.IH [OF d nm Cons.prems(3)])
  finally show ?case by (simp add: p found_events_def)
qed

lemma read_records_archive_end:
  assumes "delivers L c others"
      and "no_match (found_events others)"
      and "ReadRecord L (last_reader c others) = (Inl EOF, c')"
  shows "read_records L c tr = Some (Break c' (tr @ found_events others))"
  using assms
proof (induction others arbitrary: c tr)
  case Nil
  then show ?case by (subst read_records.simps) (simp add: found_events_def)
next
  case (Cons p os)
  obtain r x where p: "p = (r, x)" by (cases p)
  from Cons.prems p have rd: "ReadRecord L c = (Inr r, x)"
    and d: "delivers L x os"
    and n: "Name r \<noteq> extensionsYAMLFileName"
    and nm: "no_match (found_events os)"
    and e: "ReadRecord L (last_reader x os) = (Inl EOF, c')"
    by (simp_all add: found_events_def no_match_Cons)
  have "read_records L c tr = read_records L x (tr @ [Found r x])"
    by (subst read_records.simps) (simp add: rd n)
  also have "\<dots> = Some (Break c' ((tr @ [Found r x]) @ found_events os))"
    by (rule Cons.IH [OF d nm e])
  finally show ?case by (simp add: p found_events_def)
qed

lemma run_records_match:
  assumes "delivers L c (others @ [(rec, c')])"
      and "no_match (found_events others)"
      and "Name rec = extensionsYAMLFileName"
  shows "run_records L c tr =
           Some (Return (run_found L (cr c') (ReaderAt rec))
                   (tr @ found_events others @ [Found rec c']))"
  using assms
proof (induction others arbitrary: c tr)
  case Nil
  then show ?case
    by (subst run_records.simps) (simp add: found_events_def extensionsYAMLFileName_def)
next
  case (Cons p os)
  obtain r x where p: "p = (r, x)" by (cases p)
  from Cons.prems p have rd: "ReadRecord L c = (Inr r, x)"
    and d: "delivers L x (os @ [(rec, c')])"
    and n: "Name r \<noteq> ''extensions.yaml''"
    and nm: "no_match (found_events os)"
    by (simp_all add: found_events_def no_match_Cons extensionsYAMLFileName_def)
  have "run_records L c tr = run_records L x (tr @ [Found r x])"
    by (subst run_records.simps) (simp add: rd n)
  also have "\<dots> = Some (Return (run_found L (cr c') (ReaderAt rec))
                   ((tr @ [Found r x]) @ found_events os @ [Found rec c']))"
    by (rule Cons.IH [OF d nm Cons.prems(3)])
  finally show ?case by (simp add: p found_events_def)
qed

lemma run_records_archive_end:
  assumes "delivers L c others"
      and "no_match (found_events others)"
      and "ReadRecord L (last_reader c others) = (Inl EOF, c')"
  shows "run_records L c tr = Some (Break c' (tr @ found_events others))"
  using assms
proof (induction others arbitrary: c tr)
  case Nil
  then show ?case by (subst run_records.simps) (simp add: found_events_def)
next
  case (Cons p os)
  obtain r x where p: "p = (r, x)" by (cases p)
  from Cons.prems p have rd: "ReadRecord L c = (Inr r, x)"
    and d: "delivers L x os"
    and n: "Name r \<noteq> ''extensions.yaml''"
    and nm: "no_match (found_events os)"
    and e: "ReadRecord L (last_reader x os) = (Inl EOF, c')"
    by (simp_all add: found_events_def no_match_Cons extensionsYAMLFileName_def)
  have "run_records L c tr = run_records L x (tr @ [Found r x])"
    by (subst run_records.simps) (simp add: rd n)
  also have "\<dots> = Some (Break c' ((tr @ [Found r x]) @ found_events os))"
    by (rule Cons.IH [OF d nm e])
  finally show ?case by (simp add: p found_events_def)
qed

lemma passes_extract_loop:
  assumes "passes L reader ls reader'"
  shows "extract_loop L cfs tr reader =
         extract_loop L (cfs @ layer_closeFuncs ls) (tr @ layer_events ls) reader'"
  using assms
proof (induction ls arbitrary: cfs tr reader)
  case Nil
  then show ?case by simp
next
  case (Cons l ls)
  obtain decReader closeFunc others cpioReader where
    l: "l = ((decReader, closeFunc), others, cpioReader)"
    by (cases l) auto
  let ?c = "Newc_Reader (new_discarder (bufio_NewReader decReader))"
  obtain e reader1 where ep: "eatPadding (rdr (cr cpioReader)) = (e, reader1)"
    by (cases "eatPadding (rdr (cr cpioReader))")
  from Cons.prems l ep have sn: "decompressingReadCloser L reader = Inr (decReader, closeFunc)"
    and d: "delivers L ?c others"
    and nm: "no_match (found_events others)"
    and eof: "ReadRecord L (last_reader ?c others) = (Inl EOF, cpioReader)"
    and e: "e = None"
    and p: "passes L reader1 ls reader'"
    by simp_all
  have rr: "read_records L ?c (tr @ [Acquired closeFunc]) =
      Some (Break cpioReader ((tr @ [Acquired closeFunc]) @ found_events others))"
    by (rule read_records_archive_end [OF d nm eof])
  have "extract_loop L cfs tr reader =
      extract_loop L (cfs @ [closeFunc]) ((tr @ [Acquired closeFunc]) @ found_events others) reader1"
    by (subst extract_loop.simps) (simp add: sn rr ep e)
  also have "\<dots> = extract_loop L ((cfs @ [closeFunc]) @ layer_closeFuncs ls)
      (((tr @ [Acquired closeFunc]) @ found_events others) @ layer_events ls) reader'"
    by (rule Cons.IH [OF p])
  finally show ?case by (simp add: l)
qed

lemma passes_run_loop:
  assumes "passes L reader ls reader'"
  shows "run_loop L tr reader = run_loop L (tr @ layer_records ls) reader'"
  using assms
proof (induction ls arbitrary: tr reader)
  case Nil
  then show ?case by simp
next
  case (Cons l ls)
  obtain decReader closeFunc others cpioReader where
    l: "l = ((decReader, closeFunc), others, cpioReader)"
    by (cases l) auto
  let ?c = "Newc_Reader (new_discarder (bufio_NewReader decReader))"
  obtain e reader1 where ep: "eatPadding (rdr (cr cpioReader)) = (e, reader1)"
    by (cases "eatPadding (rdr (cr cpioReader))")
  from Cons.prems l ep have sn: "decompressingReadCloser L reader = Inr (decReader, closeFunc)"
    and d: "delivers L ?c others"
    and nm: "no_match (found_events others)"
    and eof: "ReadRecord L (last_reader ?c others) = (Inl EOF, cpioReader)"
    and e: "e = None"
    and p: "passes L reader1 ls reader'"
    by simp_all
  have rs: "run_sniff L reader = Inr decReader" by (simp add: run_sniff_eq sn)
  have rr: "run_records L ?c tr = Some (Break cpioReader (tr @ found_events others))"
    by (rule run_records_archive_end [OF d nm eof])
  have "run_loop L tr reader = run_loop L (tr @ found_events others) reader1"
    by (subst run_loop.simps) (simp add: rs rr ep e)
  also have "\<dots> = run_loop L ((tr @ found_events others) @ layer_records ls) reader'"
    by (rule Cons.IH [OF p])
  finally show ?case by (simp add: l)
qed

lemma passes_no_match: "passes L reader ls reader' \<Longrightarrow> no_match (layer_events ls)"
  by (induction L reader ls reader' rule: passes.induct)
     (simp_all add: no_match_Nil no_match_Cons no_match_append)

text \<open>The decoders closed by the deferred function are those acquired, in that order.\<close>

lemma acquired_decoders_append:
  "acquired_decoders (tr @ tr') = acquired_decoders tr @ acquired_decoders tr'"
  by (induction tr rule: acquired_decoders.induct) simp_all

lemma deferred_snoc: "deferred (cfs @ [c]) = call c (deferred cfs)"
  by (simp add: deferred_def)

lemma call_acquired:
  "deferred cfs = acquired_decoders tr \<Longrightarrow>
   deferred (cfs @ [c]) = acquired_decoders (tr @ [Acquired c])"
  by (cases c) (simp_all add: deferred_snoc acquired_decoders_append)

lemma read_records_acquired:
  assumes "read_records L c tr = Some exit"
  shows "acquired_decoders (exit_trace exit) = acquired_decoders tr"
  using assms
proof (induct rule: read_records_induct)
  case (step rr L c tr exit)
  obtain r c' where rc: "ReadRecord L c = (r, c')" by (cases "ReadRecord L c")
  show ?case
  proof (cases r)
    case (Inl err)
    with step(2) rc show ?thesis by (auto split: if_splits)
  next
    case (Inr rec)
    show ?thesis
    proof (cases "Name rec = extensionsYAMLFileName")
      case True
      with step(2) rc Inr show ?thesis by (auto simp: acquired_decoders_append)
    next
      case False
      with step(2) rc Inr have "rr L c' (tr @ [Found rec c']) = Some exit" by simp
      from step(1) [OF this] show ?thesis by (simp add: acquired_decoders_append)
    qed
  qed
qed

lemma extract_loop_acquired:
  assumes "extract_loop L cfs tr reader = Some out"
  shows "deferred cfs = acquired_decoders tr \<longrightarrow>
         deferred (snd (snd out)) = acquired_decoders (fst (snd out))"
  using assms
proof (induct rule: extract_loop_induct)
  case (step el L cfs tr reader out)
  show ?case
  proof
    assume inv: "deferred cfs = acquired_decoders tr"
    show "deferred (snd (snd out)) = acquired_decoders (fst (snd out))"
    proof (cases "decompressingReadCloser L reader")
      case (Inl err)
      with step(2) inv show ?thesis by auto
    next
      case (Inr p)
      obtain decReader closeFunc where p: "p = (decReader, closeFunc)" by (cases p)
      let ?c = "Newc_Reader (new_discarder (bufio_NewReader decReader))"
      from step(2) Inr p obtain exit where
        ex: "read_records L ?c (tr @ [Acquired closeFunc]) = Some exit"
        by (auto simp: bind_eq_Some_conv)
      have inv': "deferred (cfs @ [closeFunc]) = acquired_decoders (exit_trace exit)"
        using call_acquired [OF inv] read_records_acquired [OF ex] by simp
      show ?thesis
      proof (cases exit)
        case (Return res tr')
        with step(2) Inr p ex inv' show ?thesis by auto
      next
        case (Break c' tr')
        obtain e reader' where ep: "eatPadding (rdr (cr c')) = (e, reader')"
          by (cases "eatPadding (rdr (cr c'))")
        show ?thesis
        proof (cases e)
          case None
          with step(2) Inr p ex Break ep
          have "el L (cfs @ [closeFunc]) tr' reader' = Some out" by simp
          moreover have "deferred (cfs @ [closeFunc]) = acquired_decoders tr'"
            using inv' Break by simp
          ultimately show ?thesis using step(1) by blast
        next
          case (Some err)
          with step(2) Inr p ex Break ep inv' show ?thesis by auto
        qed
      qed
    qed
  qed
qed

text \<open>A turn that falls through leaves the rest of the run to the next turn.\<close>

lemma next_layer_extract_loop:
  assumes "next_layer L (cfs, tr, reader) (cfs', tr', reader')"
  shows "extract_loop L cfs tr reader = extract_loop L cfs' tr' reader'"
  using assms
  by (cases rule: next_layer.cases) (subst extract_loop.simps, simp)

lemma next_layers_extract_loop:
  assumes "(next_layer L)\<^sup>+\<^sup>+ s s'"
  shows "extract_loop L (fst s) (fst (snd s)) (snd (snd s)) =
         extract_loop L (fst s') (fst (snd s')) (snd (snd s'))"
  using assms
proof (induct rule: tranclp_induct)
  case (base y)
  then show ?case by (cases s, cases y) (auto dest: next_layer_extract_loop)
next
  case (step y z)
  then show ?case by (cases y, cases z) (auto dest: next_layer_extract_loop)
qed

text \<open>On a reader with no bytes left the sniffer's \<open>Peek\<close> fails and its error is returned.\<close>

lemma extract_loop_exhausted:
  "rest reader = [] \<Longrightarrow> extract_loop L cfs tr reader = Some (Inl (fin reader), tr, cfs)"
  by (subst extract_loop.simps) (simp add: decompressingReadCloser_def Peek_def)

text \<open>Zero bytes are skipped up to the end of the input or up to the first other byte.\<close>

lemma eatPadding_zeros:
  "eatPadding \<lparr>rest = replicate k NUL, fin = EOF\<rparr> = (None, \<lparr>rest = [], fin = EOF\<rparr>)"
  by (induction k)
     (simp_all add: eatPadding.simps [of "\<lparr>rest = _, fin = EOF\<rparr>"] ReadByte_def NUL_def)

lemma eatPadding_until:
  "b \<noteq> NUL \<Longrightarrow>
   eatPadding \<lparr>rest = replicate k NUL @ b # after, fin = e\<rparr> =
     (None, \<lparr>rest = b # after, fin = e\<rparr>)"
  by (induction k)
     (simp_all add: eatPadding.simps [of "\<lparr>rest = _, fin = e\<rparr>"] ReadByte_def UnreadByte_def
        NUL_def)

section \<open>The example archives, step by step\<close>

lemmas newc_defs = EOFReader_ReadRecord_def newc_ReadRecord_def newc_read_def ReadAt_def
  ReadFull_def Copy_Discard_LimitReader_def header_field_def hex_digit_def round4_def
  Newc_Reader_def new_discarder_def

lemmas sniff_defs = decompressingReadCloser_def Peek_def example_libs_def stored_NewReader_def

lemma ReadRecord_trailer:
  "EOFReader_ReadRecord (Newc_Reader (new_discarder \<lparr>rest = trailer_archive @ after, fin = e\<rparr>)) =
     (Inl EOF, \<lparr>cr = \<lparr>rdr = \<lparr>rest = NUL # NUL # NUL # after, fin = e\<rparr>, pos = 121\<rparr>, cpos = 124\<rparr>)"
  by (simp add: newc_defs trailer_archive_def newc_header_def)

lemma ReadRecord_extensions:
  "EOFReader_ReadRecord
     (Newc_Reader (new_discarder \<lparr>rest = extensions_record ''0000000C'' body @ after, fin = e\<rparr>)) =
     (Inr \<lparr>Name = ''extensions.yaml'', ReaderAt = SectionReader 128 12\<rparr>,
      \<lparr>cr = \<lparr>rdr = \<lparr>rest = NUL # NUL # body @ after, fin = e\<rparr>, pos = 126\<rparr>, cpos = 140\<rparr>)"
  by (simp add: newc_defs extensions_record_def newc_header_def)

lemma ReadRecord_extensions_empty:
  "EOFReader_ReadRecord
     (Newc_Reader (new_discarder \<lparr>rest = extensions_record ''00000000'' [] @ after, fin = e\<rparr>)) =
     (Inr \<lparr>Name = ''extensions.yaml'', ReaderAt = SectionReader 128 0\<rparr>,
      \<lparr>cr = \<lparr>rdr = \<lparr>rest = NUL # NUL # after, fin = e\<rparr>, pos = 126\<rparr>, cpos = 128\<rparr>)"
  by (simp add: newc_defs extensions_record_def newc_header_def)

lemma lines_Decode_section:
  "lines_Decode \<lparr>rdr = \<lparr>rest = NUL # NUL # two_layers @ after, fin = e\<rparr>, pos = 126\<rparr> 128 12 =
     Inr \<lparr>Layers = [\<lparr>Metadata = \<lparr>ExtraInfo = ''alpha''\<rparr>\<rparr>, \<lparr>Metadata = \<lparr>ExtraInfo = ''hello''\<rparr>\<rparr>]\<rparr>"
  by (simp add: lines_Decode_def ReadAt_def ReadFull_def Copy_Discard_LimitReader_def
      two_layers_def)

lemma lines_Decode_section_empty:
  "lines_Decode \<lparr>rdr = \<lparr>rest = NUL # NUL # after, fin = e\<rparr>, pos = 126\<rparr> 128 0 =
     Inr \<lparr>Layers = []\<rparr>"
  by (simp add: lines_Decode_def ReadAt_def ReadFull_def Copy_Discard_LimitReader_def)

lemma sniff_trailer:
  "decompressingReadCloser example_libs \<lparr>rest = trailer_archive @ after, fin = e\<rparr> =
     Inr (BufioReader \<lparr>rest = trailer_archive @ after, fin = e\<rparr>, no_op)"
  by (simp add: sniff_defs trailer_archive_def newc_header_def)

lemma sniff_extensions:
  "decompressingReadCloser example_libs \<lparr>rest = extensions_record fs body @ after, fin = e\<rparr> =
     Inr (BufioReader \<lparr>rest = extensions_record fs body @ after, fin = e\<rparr>, no_op)"
  by (simp add: sniff_defs extensions_record_def newc_header_def)

lemma sniff_zstd:
  "decompressingReadCloser example_libs \<lparr>rest = zstd_magic @ after, fin = e\<rparr> =
     Inr (ZstdDecoder \<lparr>rest = after, fin = e\<rparr>, Decoder_Close \<lparr>rest = after, fin = e\<rparr>)"
  by (simp add: sniff_defs zstd_magic_def)

lemma records_trailer:
  "read_records example_libs
     (Newc_Reader (new_discarder \<lparr>rest = trailer_archive @ after, fin = e\<rparr>)) tr =
   Some (Break \<lparr>cr = \<lparr>rdr = \<lparr>rest = NUL # NUL # NUL # after, fin = e\<rparr>, pos = 121\<rparr>,
                 cpos = 124\<rparr> tr)"
  by (subst read_records.simps) (simp add: example_libs_def ReadRecord_trailer)

lemma records_extensions:
  "read_records example_libs
     (Newc_Reader (new_discarder
        \<lparr>rest = extensions_record ''0000000C'' two_layers @ after, fin = e\<rparr>)) tr =
   Some (Return (Inr ''hello'')
     (tr @ [Found first_record
              \<lparr>cr = \<lparr>rdr = \<lparr>rest = NUL # NUL # two_layers @ after, fin = e\<rparr>, pos = 126\<rparr>,
                cpos = 140\<rparr>]))"
  by (subst read_records.simps)
     (simp add: example_libs_def ReadRecord_extensions parseRawFromExtensions_def
        lines_Decode_section extensionsYAMLFileName_def first_record_def)

lemma eatPadding_3:
  "eatPadding \<lparr>rest = [NUL, NUL, NUL], fin = EOF\<rparr> = (None, \<lparr>rest = [], fin = EOF\<rparr>)"
  using eatPadding_zeros [of 3] by (simp add: eval_nat_numeral)

lemma eatPadding_7:
  "eatPadding \<lparr>rest = [NUL, NUL, NUL, NUL, NUL, NUL, NUL], fin = EOF\<rparr> =
     (None, \<lparr>rest = [], fin = EOF\<rparr>)"
  using eatPadding_zeros [of 7] by (simp add: eval_nat_numeral)

lemma eatPadding_before_zstd:
  "eatPadding \<lparr>rest = NUL # NUL # NUL # zstd_magic @ after, fin = EOF\<rparr> =
     (None, \<lparr>rest = zstd_magic @ after, fin = EOF\<rparr>)"
  using eatPadding_until [of "CHR 0x28" 3 "[CHR 0xB5, CHR 0x2F, CHR 0xFD] @ after" EOF]
  by (simp add: zstd_magic_def NUL_def eval_nat_numeral)

text \<open>The archive reader on the record named \<open>init\<close> and on what follows it.\<close>

lemma ReadRecord_example: "ReadRecord example_libs = EOFReader_ReadRecord"
  by (simp add: example_libs_def)

lemma ReadRecord_other:
  "EOFReader_ReadRecord (Newc_Reader (new_discarder \<lparr>rest = other_record @ after, fin = EOF\<rparr>)) =
     (Inr init_record, after_other after)"
  by (simp add: newc_defs other_record_def newc_header_def init_record_def after_other_def)

lemma ReadRecord_trailer_after_other:
  "EOFReader_ReadRecord (after_other (trailer_archive @ after)) =
     (Inl EOF, \<lparr>cr = \<lparr>rdr = \<lparr>rest = NUL # NUL # NUL # after, fin = EOF\<rparr>, pos = 241\<rparr>, cpos = 244\<rparr>)"
  by (simp add: newc_defs after_other_def trailer_archive_def newc_header_def)

lemma ReadRecord_extensions_after_other:
  "EOFReader_ReadRecord (after_other (extensions_record ''0000000C'' body @ after)) =
     (Inr first_match,
      \<lparr>cr = \<lparr>rdr = \<lparr>rest = NUL # NUL # body @ after, fin = EOF\<rparr>, pos = 246\<rparr>, cpos = 260\<rparr>)"
  by (simp add: newc_defs after_other_def extensions_record_def newc_header_def first_match_def)

lemma lines_Decode_after_other:
  "lines_Decode \<lparr>rdr = \<lparr>rest = NUL # NUL # two_layers @ after, fin = e\<rparr>, pos = 246\<rparr> 248 12 =
     Inr \<lparr>Layers = [\<lparr>Metadata = \<lparr>ExtraInfo = ''alpha''\<rparr>\<rparr>, \<lparr>Metadata = \<lparr>ExtraInfo = ''hello''\<rparr>\<rparr>]\<rparr>"
  by (simp add: lines_Decode_def ReadAt_def ReadFull_def Copy_Discard_LimitReader_def
      two_layers_def)

lemma sniff_other:
  "decompressingReadCloser example_libs \<lparr>rest = other_record @ after, fin = e\<rparr> =
     Inr (BufioReader \<lparr>rest = other_record @ after, fin = e\<rparr>, no_op)"
  by (simp add: sniff_defs other_record_def newc_header_def)

text \<open>
  End to end: of two records named \<open>extensions.yaml\<close> the first is decoded, and of its
  two layers the second gives the result.
\<close>

lemma extract_two_matches:
  "extractRawSchematic example_libs \<lparr>rest = two_matches, fin = EOF\<rparr> =
     Some (Inr ''hello'', [Acquired no_op, Found first_record after_first_header], [])"
  apply (simp add: extractRawSchematic_def two_matches_def)
  apply (subst extract_loop.simps)
  apply (simp add: sniff_extensions records_extensions deferred_def after_first_header_def)
  done

text \<open>End to end: two nested compressed layers, the record in the inner one.\<close>

lemma extract_nested_layers:
  "extractRawSchematic example_libs \<lparr>rest = nested_layers, fin = EOF\<rparr> =
     Some (Inr ''hello'',
           [Acquired (Decoder_Close outer_decoder), Acquired (Decoder_Close inner_decoder),
            Found first_record after_inner_header],
           [outer_decoder, inner_decoder])"
proof -
  have inner: "extract_loop example_libs [Decoder_Close outer_decoder]
      [Acquired (Decoder_Close outer_decoder)] \<lparr>rest = zstd_magic @ inner_layer, fin = EOF\<rparr> =
    Some (Inr ''hello'',
           [Acquired (Decoder_Close outer_decoder), Acquired (Decoder_Close inner_decoder),
            Found first_record after_inner_header],
           [Decoder_Close outer_decoder, Decoder_Close inner_decoder])"
    apply (subst extract_loop.simps)
    apply (simp add: sniff_zstd)
    apply (simp add: inner_layer_def records_extensions inner_decoder_def after_inner_header_def)
    done
  show ?thesis
    apply (simp add: extractRawSchematic_def nested_layers_def)
    apply (subst extract_loop.simps)
    apply (simp add: sniff_zstd records_trailer eatPadding_before_zstd)
    apply (simp add: inner [unfolded outer_decoder_def] deferred_def outer_decoder_def)
    done
qed

text \<open>
  End to end: an archive whose \<open>extensions.yaml\<close> decodes to no layers. The loop of
  \<open>run\<close> panics; \<open>extractRawSchematic\<close> returns its error.
\<close>

lemma run_loop_empty_layers:
  "run_loop example_libs [] \<lparr>rest = extensions_record ''00000000'' [] @ trailer_archive, fin = EOF\<rparr> =
     Some (Inl PanicIndexOutOfRange,
           [Found \<lparr>Name = ''extensions.yaml'', ReaderAt = SectionReader 128 0\<rparr>
              \<lparr>cr = \<lparr>rdr = \<lparr>rest = NUL # NUL # trailer_archive, fin = EOF\<rparr>, pos = 126\<rparr>,
                cpos = 128\<rparr>])"
  apply (subst run_loop.simps)
  apply (simp add: run_sniff_eq sniff_extensions)
  apply (subst run_records.simps)
  apply (simp add: example_libs_def ReadRecord_extensions_empty run_found_def
      lines_Decode_section_empty)
  done

lemma extract_empty_layers:
  "extractRawSchematic example_libs
     \<lparr>rest = extensions_record ''00000000'' [] @ trailer_archive, fin = EOF\<rparr> =
     Some (Inl ErrNoLayers,
           [Acquired no_op,
            Found \<lparr>Name = ''extensions.yaml'', ReaderAt = SectionReader 128 0\<rparr>
              \<lparr>cr = \<lparr>rdr = \<lparr>rest = NUL # NUL # trailer_archive, fin = EOF\<rparr>, pos = 126\<rparr>,
                cpos = 128\<rparr>],
           [])"
  apply (simp add: extractRawSchematic_def)
  apply (subst extract_loop.simps)
  apply (simp add: sniff_extensions)
  apply (subst read_records.simps)
  apply (simp add: example_libs_def ReadRecord_extensions_empty parseRawFromExtensions_def
      lines_Decode_section_empty extensionsYAMLFileName_def deferred_def)
  done

section \<open>The driver: an exhausted artifact\<close>

text \<open>
  C3, as stated, fails. The artifact is an archive that holds only the trailer, followed
  by four zero bytes. No record named \<open>extensions.yaml\<close> is found and the padding is
  skipped to the end of the input; the next turn of the loop fails in the sniffer's
  \<open>Peek\<close> and the function returns that error, \<open>io.EOF\<close>, whose text is "EOF". The
  program has no error for a member that was not found, and the name searched for is
  not reported.
\<close>

theorem exhausted_artifact_returns_plain_EOF:
  "extractRawSchematic example_libs
     \<lparr>rest = trailer_archive @ [NUL, NUL, NUL, NUL], fin = EOF\<rparr> =
     Some (Inl EOF, [Acquired no_op], []) \<and>
   Error EOF = ''EOF''"
  apply (simp add: extractRawSchematic_def)
  apply (subst extract_loop.simps)
  apply (simp add: sniff_trailer records_trailer eatPadding_7)
  apply (simp add: extract_loop_exhausted deferred_def)
  done

text \<open>
  C3, amended. When the run falls through one or more layers (in each the sniffer
  succeeds, the archive ends without a record named \<open>extensions.yaml\<close>, and the
  padding is skipped) and then no byte is left on a stream that ended with \<open>io.EOF\<close>,
  \<open>extractRawSchematic\<close> terminates and returns the error \<open>io.EOF\<close> of the sniffer's
  4-byte \<open>Peek\<close>, after running the deferred close functions.
\<close>

theorem exhausted_artifact_fails_with_EOF:
  assumes "(next_layer L)\<^sup>+\<^sup>+ ([], [], reader) (closeFuncs, tr, reader')"
      and "rest reader' = []" and "fin reader' = EOF"
  shows "extractRawSchematic L reader = Some (Inl EOF, tr, deferred closeFuncs)"
  using next_layers_extract_loop [OF assms(1)] extract_loop_exhausted [OF assms(2)] assms(3)
  by (simp add: extractRawSchematic_def)

theorem exhausted_artifact_fails_with_EOF_witness:
  "(next_layer example_libs)\<^sup>+\<^sup>+ ([], [], \<lparr>rest = trailer_archive, fin = EOF\<rparr>)
      ([no_op], [Acquired no_op], \<lparr>rest = [], fin = EOF\<rparr>) \<and>
   extractRawSchematic example_libs \<lparr>rest = trailer_archive, fin = EOF\<rparr> =
     Some (Inl EOF, [Acquired no_op], [])"
proof -
  have "next_layer example_libs ([], [], \<lparr>rest = trailer_archive, fin = EOF\<rparr>)
      ([] @ [no_op], [Acquired no_op], \<lparr>rest = [], fin = EOF\<rparr>)"
    by (rule fall_through [where decReader = "BufioReader \<lparr>rest = trailer_archive, fin = EOF\<rparr>"
          and cpioReader = "\<lparr>cr = \<lparr>rdr = \<lparr>rest = [NUL, NUL, NUL], fin = EOF\<rparr>, pos = 121\<rparr>,
                              cpos = 124\<rparr>"])
       (use sniff_trailer [of "[]" EOF] records_trailer [of "[]" EOF "[Acquired no_op]"]
          eatPadding_3 in simp_all)
  then have h: "(next_layer example_libs)\<^sup>+\<^sup>+ ([], [], \<lparr>rest = trailer_archive, fin = EOF\<rparr>)
      ([no_op], [Acquired no_op], \<lparr>rest = [], fin = EOF\<rparr>)"
    by auto
  show ?thesis
    using h exhausted_artifact_fails_with_EOF [OF h] by (simp add: deferred_def)
qed

section \<open>The driver: the first match\<close>

text \<open>
  C5. Let the artifact begin with any number of layers that hold no record named
  \<open>extensions.yaml\<close>, and let the archive of the next layer hold any number of
  records with other names and then a record named \<open>extensions.yaml\<close>. Then
  \<open>extractRawSchematic\<close> terminates, and what it returns is the decoding of that
  record, the first of that name in the order of iteration. The record is the last
  event of the run, so \<open>ReadRecord\<close> is not called again after it, and no event
  before it is a record of that name. Nothing is assumed about what \<open>ReadRecord\<close>
  would deliver after that record, so no later record, of that name or another, has any
  influence on the result. The loop inside \<open>run\<close> does the same, with the decoding
  done in place.
\<close>

theorem first_match_decoded_and_returned:
  assumes "passes L reader ls reader'"
      and "decompressingReadCloser L reader' = Inr (decReader, closeFunc)"
      and "delivers L (Newc_Reader (new_discarder (bufio_NewReader decReader))) (others @ [(rec, c)])"
      and "no_match (found_events others)"
      and "Name rec = extensionsYAMLFileName"
  shows "extractRawSchematic L reader =
           Some (parseRawFromExtensions L (cr c) (ReaderAt rec),
                 layer_events ls @ Acquired closeFunc # found_events others @ [Found rec c],
                 deferred (layer_closeFuncs ls @ [closeFunc])) \<and>
         run_loop L [] reader =
           Some (run_found L (cr c) (ReaderAt rec),
                 layer_records ls @ found_events others @ [Found rec c]) \<and>
         no_match (layer_events ls @ Acquired closeFunc # found_events others)"
proof (intro conjI)
  let ?c = "Newc_Reader (new_discarder (bufio_NewReader decReader))"
  have "extract_loop L [] [] reader =
      extract_loop L (layer_closeFuncs ls) (layer_events ls) reader'"
    using passes_extract_loop [OF assms(1), of "[]" "[]"] by simp
  also have "\<dots> = Some (parseRawFromExtensions L (cr c) (ReaderAt rec),
                 (layer_events ls @ [Acquired closeFunc]) @ found_events others @ [Found rec c],
                 layer_closeFuncs ls @ [closeFunc])"
    by (subst extract_loop.simps)
       (simp add: assms(2) read_records_match [OF assms(3) assms(4) assms(5)])
  finally show "extractRawSchematic L reader =
           Some (parseRawFromExtensions L (cr c) (ReaderAt rec),
                 layer_events ls @ Acquired closeFunc # found_events others @ [Found rec c],
                 deferred (layer_closeFuncs ls @ [closeFunc]))"
    by (simp add: extractRawSchematic_def)
  have "run_loop L [] reader = run_loop L (layer_records ls) reader'"
    using passes_run_loop [OF assms(1), of "[]"] by simp
  also have "\<dots> = Some (run_found L (cr c) (ReaderAt rec),
                 layer_records ls @ found_events others @ [Found rec c])"
    by (subst run_loop.simps)
       (simp add: run_sniff_eq assms(2) run_records_match [OF assms(3) assms(4) assms(5)])
  finally show "run_loop L [] reader =
           Some (run_found L (cr c) (ReaderAt rec),
                 layer_records ls @ found_events others @ [Found rec c])" .
  show "no_match (layer_events ls @ Acquired closeFunc # found_events others)"
    using passes_no_match [OF assms(1)] assms(4)
    by (simp add: no_match_append no_match_Cons)
qed

theorem first_match_decoded_and_returned_witness:
  "passes example_libs \<lparr>rest = layered_matches, fin = EOF\<rparr> [first_layer]
     \<lparr>rest = zstd_magic @ second_layer, fin = EOF\<rparr> \<and>
   decompressingReadCloser example_libs \<lparr>rest = zstd_magic @ second_layer, fin = EOF\<rparr> =
     Inr (ZstdDecoder second_decoder, Decoder_Close second_decoder) \<and>
   delivers example_libs (Newc_Reader (new_discarder (bufio_NewReader (ZstdDecoder second_decoder))))
     ([(init_record, after_other two_matches)] @ [(first_match, after_first_match)]) \<and>
   no_match (found_events [(init_record, after_other two_matches)]) \<and>
   Name first_match = extensionsYAMLFileName \<and>
   extractRawSchematic example_libs \<lparr>rest = layered_matches, fin = EOF\<rparr> =
     Some (Inr ''hello'',
           [Acquired no_op,
            Found init_record (after_other (trailer_archive @ zstd_magic @ second_layer)),
            Acquired (Decoder_Close second_decoder),
            Found init_record (after_other two_matches),
            Found first_match after_first_match],
           [second_decoder]) \<and>
   run_loop example_libs [] \<lparr>rest = layered_matches, fin = EOF\<rparr> =
     Some (Inr ''hello'',
           [Found init_record (after_other (trailer_archive @ zstd_magic @ second_layer)),
            Found init_record (after_other two_matches),
            Found first_match after_first_match])"
proof -
  have other: "no_match (found_events [(init_record, x)])" for x
    by (simp add: found_events_def no_match_def init_record_def extensionsYAMLFileName_def)
  have h1: "passes example_libs \<lparr>rest = layered_matches, fin = EOF\<rparr> [first_layer]
     \<lparr>rest = zstd_magic @ second_layer, fin = EOF\<rparr>"
    by (simp add: first_layer_def layered_matches_def sniff_other ReadRecord_example
        ReadRecord_other ReadRecord_trailer_after_other first_layer_end_def
        eatPadding_before_zstd other)
  have h2: "decompressingReadCloser example_libs \<lparr>rest = zstd_magic @ second_layer, fin = EOF\<rparr> =
     Inr (ZstdDecoder second_decoder, Decoder_Close second_decoder)"
    by (simp add: sniff_zstd second_decoder_def)
  have h3: "delivers example_libs
     (Newc_Reader (new_discarder (bufio_NewReader (ZstdDecoder second_decoder))))
     ([(init_record, after_other two_matches)] @ [(first_match, after_first_match)])"
    by (simp add: second_decoder_def second_layer_def ReadRecord_example ReadRecord_other
        two_matches_def ReadRecord_extensions_after_other after_first_match_def)
  have h4: "no_match (found_events [(init_record, after_other two_matches)])"
    by (rule other)
  have h5: "Name first_match = extensionsYAMLFileName"
    by (simp add: first_match_def extensionsYAMLFileName_def)
  have p: "parseRawFromExtensions example_libs (cr after_first_match) (ReaderAt first_match) =
     Inr ''hello''"
    by (simp add: parseRawFromExtensions_def example_libs_def first_match_def
        after_first_match_def lines_Decode_after_other)
  have q: "run_found example_libs (cr after_first_match) (ReaderAt first_match) = Inr ''hello''"
    by (simp add: run_found_def example_libs_def first_match_def
        after_first_match_def lines_Decode_after_other)
  have d: "deferred [no_op, Decoder_Close second_decoder] = [second_decoder]"
    by (simp add: deferred_def)
  show ?thesis
    using h1 h2 h3 h4 h5 first_match_decoded_and_returned [OF h1 h2 h3 h4 h5]
    by (simp add: p q d first_layer_def found_events_def)
qed

section \<open>The driver: closing the decoders\<close>

text \<open>
  C10, as stated, fails. The artifact has two nested compressed layers, so two decoders
  are acquired, the outer one first. The deferred function closes the outer decoder
  first and the inner one second: in the order of acquisition, not in reverse.
\<close>

theorem decoders_closed_first_acquired_first:
  "extractRawSchematic example_libs \<lparr>rest = nested_layers, fin = EOF\<rparr> =
     Some (Inr ''hello'',
           [Acquired (Decoder_Close outer_decoder), Acquired (Decoder_Close inner_decoder),
            Found first_record after_inner_header],
           [outer_decoder, inner_decoder]) \<and>
   [outer_decoder, inner_decoder] \<noteq> rev [outer_decoder, inner_decoder]"
proof -
  have "length (rest outer_decoder) \<noteq> length (rest inner_decoder)"
    by (simp add: outer_decoder_def inner_decoder_def zstd_magic_def)
  then have "outer_decoder \<noteq> inner_decoder" by auto
  then show ?thesis using extract_nested_layers by simp
qed

text \<open>
  C10, amended. Whenever \<open>extractRawSchematic\<close> terminates, with a value or with an
  error, the deferred function has called every close function that was appended to
  \<open>closeFuncs\<close>, each once and in the order of acquisition (first acquired, first
  called): the decoders it closed are exactly the Zstandard decoders acquired, in that
  order. (The close function of an XZ reader and of a layer that is not compressed is
  empty.)
\<close>

theorem deferred_closes_in_acquisition_order:
  assumes "extractRawSchematic L reader = Some (res, tr, closed)"
  shows "closed = acquired_decoders tr"
proof -
  from assms obtain cfs where el: "extract_loop L [] [] reader = Some (res, tr, cfs)"
    and closed: "closed = deferred cfs"
    by (auto simp: extractRawSchematic_def split: option.splits)
  have "deferred [] = acquired_decoders []" by (simp add: deferred_def)
  with extract_loop_acquired [OF el] closed show ?thesis by simp
qed

theorem deferred_closes_in_acquisition_order_witness:
  "extractRawSchematic example_libs \<lparr>rest = zstd_magic @ inner_layer, fin = EOF\<rparr> =
     Some (Inr ''hello'',
           [Acquired (Decoder_Close inner_decoder), Found first_record after_inner_header],
           [inner_decoder]) \<and>
   acquired_decoders
     [Acquired (Decoder_Close inner_decoder), Found first_record after_inner_header] =
     [inner_decoder]"
proof -
  have h: "extractRawSchematic example_libs \<lparr>rest = zstd_magic @ inner_layer, fin = EOF\<rparr> =
     Some (Inr ''hello'',
           [Acquired (Decoder_Close inner_decoder), Found first_record after_inner_header],
           [inner_decoder])"
    apply (simp add: extractRawSchematic_def)
    apply (subst extract_loop.simps)
    apply (simp add: sniff_zstd)
    apply (simp add: inner_layer_def records_extensions inner_decoder_def after_inner_header_def
        deferred_def)
    done
  show ?thesis
    by (rule conjI [OF h deferred_closes_in_acquisition_order [OF h, symmetric]])
qed

section \<open>The driver: when the loops end\<close>

text \<open>
  \<open>eatPadding\<close> is total (its termination is proved with its definition) and only
  drops bytes from the front of the stream.
\<close>

lemma eatPadding_drops:
  "\<exists>k. snd (eatPadding inp) = inp\<lparr>rest := drop k (rest inp)\<rparr>"
proof (induction inp rule: eatPadding.induct)
  case (1 inp)
  show ?case
  proof (cases "rest inp")
    case Nil
    then have "snd (eatPadding inp) = inp\<lparr>rest := drop 0 (rest inp)\<rparr>"
      by (subst eatPadding.simps) (simp add: ReadByte_def)
    then show ?thesis by blast
  next
    case (Cons b bs)
    show ?thesis
    proof (cases "b = CHR 0x00")
      case False
      with Cons have "snd (eatPadding inp) = inp\<lparr>rest := drop 0 (rest inp)\<rparr>"
        by (subst eatPadding.simps) (simp add: ReadByte_def UnreadByte_def)
      then show ?thesis by blast
    next
      case True
      with Cons have rb: "ReadByte inp = (Inr b, inp\<lparr>rest := bs\<rparr>)" by (simp add: ReadByte_def)
      from "1.IH" [OF rb [symmetric] refl] True
      obtain k where k: "snd (eatPadding (inp\<lparr>rest := bs\<rparr>)) = inp\<lparr>rest := drop k bs\<rparr>"
        by auto
      have "eatPadding inp = eatPadding (inp\<lparr>rest := bs\<rparr>)"
        using rb True by (subst eatPadding.simps) simp
      with k Cons have "snd (eatPadding inp) = inp\<lparr>rest := drop (Suc k) (rest inp)\<rparr>" by simp
      then show ?thesis by blast
    qed
  qed
qed

text \<open>With a consuming archive reader the inner loop ends on every stream.\<close>

lemma read_records_terminates:
  assumes cons: "consuming_reader L depth"
  shows "\<exists>exit. read_records L c tr = Some exit \<and>
           (\<forall>c' tr'. exit = Break c' tr' \<longrightarrow>
              depth (rdr (cr c')) \<le> depth (rdr (cr c)) \<and>
              length (rest (rdr (cr c'))) \<le> length (rest (rdr (cr c))) \<and>
              (rest (rdr (cr c')) = [] \<or>
               length (rest (rdr (cr c'))) < length (rest (rdr (cr c)))))"
proof (induction "length (rest (rdr (cr c)))" arbitrary: c tr rule: less_induct)
  case less
  obtain r c1 where rc: "ReadRecord L c = (r, c1)" by (cases "ReadRecord L c")
  from cons rc have
    d1: "depth (rdr (cr c1)) \<le> depth (rdr (cr c))" and
    l1: "length (rest (rdr (cr c1))) \<le> length (rest (rdr (cr c)))" and
    s1: "case r of
           Inr rec \<Rightarrow> length (rest (rdr (cr c1))) < length (rest (rdr (cr c)))
         | Inl err \<Rightarrow> err = EOF \<longrightarrow> rest (rdr (cr c1)) = [] \<or>
               length (rest (rdr (cr c1))) < length (rest (rdr (cr c)))"
    unfolding consuming_reader_def by blast+
  show ?case
  proof (cases r)
    case (Inl err)
    with rc d1 l1 s1 show ?thesis
      by (subst read_records.simps) auto
  next
    case (Inr rec)
    with s1 have shorter: "length (rest (rdr (cr c1))) < length (rest (rdr (cr c)))" by simp
    show ?thesis
    proof (cases "Name rec = extensionsYAMLFileName")
      case True
      with rc Inr show ?thesis by (subst read_records.simps) simp
    next
      case False
      from less [OF shorter, of "tr @ [Found rec c1]"] obtain exit where
        ex: "read_records L c1 (tr @ [Found rec c1]) = Some exit" and
        br: "\<forall>c' tr'. exit = Break c' tr' \<longrightarrow>
              depth (rdr (cr c')) \<le> depth (rdr (cr c1)) \<and>
              length (rest (rdr (cr c'))) \<le> length (rest (rdr (cr c1))) \<and>
              (rest (rdr (cr c')) = [] \<or>
               length (rest (rdr (cr c'))) < length (rest (rdr (cr c1))))"
        by blast
      have "read_records L c tr = Some exit"
        using rc Inr False ex by (subst read_records.simps) simp
      with br d1 shorter show ?thesis by fastforce
    qed
  qed
qed

lemma sniff_cases:
  assumes "decompressingReadCloser L reader = Inr (decReader, closeFunc)"
      and "finite_nesting L depth"
  shows "4 \<le> length (rest reader) \<and>
         (bufio_NewReader decReader = reader \<or> depth (bufio_NewReader decReader) < depth reader)"
  using assms
  by (auto simp: decompressingReadCloser_def Peek_def finite_nesting_def
      split: if_splits sum.splits)

text \<open>
  A turn of the outer loop that falls through either has gone one layer deeper or
  leaves strictly fewer bytes on the same layer.
\<close>

lemma next_layer_progress:
  assumes cons: "consuming_reader L depth" and fin: "finite_nesting L depth"
      and step: "next_layer L (cfs, tr, reader) (cfs', tr', reader')"
  shows "depth reader' < depth reader \<or>
         (depth reader' \<le> depth reader \<and> length (rest reader') < length (rest reader))"
  using step
proof (cases rule: next_layer.cases)
  case (fall_through decReader closeFunc cpioReader)
  let ?r0 = "bufio_NewReader decReader"
  from fall_through have
    sn: "decompressingReadCloser L reader = Inr (decReader, closeFunc)" and
    rr: "read_records L (Newc_Reader (new_discarder ?r0)) (tr @ [Acquired closeFunc]) =
           Some (Break cpioReader tr')" and
    ep: "eatPadding (rdr (cr cpioReader)) = (None, reader')"
    by simp_all
  from sniff_cases [OF sn fin]
  have four: "4 \<le> length (rest reader)" and
    r0: "?r0 = reader \<or> depth ?r0 < depth reader" by simp_all
  from read_records_terminates [OF cons, of "Newc_Reader (new_discarder ?r0)" "tr @ [Acquired closeFunc]"]
    rr
  have d: "depth (rdr (cr cpioReader)) \<le> depth ?r0" and
    l: "rest (rdr (cr cpioReader)) = [] \<or>
        length (rest (rdr (cr cpioReader))) < length (rest ?r0)"
    by (auto simp: Newc_Reader_def new_discarder_def)
  from eatPadding_drops [of "rdr (cr cpioReader)"] ep
  obtain k where k: "reader' = (rdr (cr cpioReader))\<lparr>rest := drop k (rest (rdr (cr cpioReader)))\<rparr>"
    by auto
  have d': "depth reader' \<le> depth (rdr (cr cpioReader))"
    using fin k by (simp add: finite_nesting_def)
  have l': "length (rest reader') \<le> length (rest (rdr (cr cpioReader)))"
    using k by simp
  from r0 show ?thesis
  proof
    assume "depth ?r0 < depth reader"
    with d d' show ?thesis by simp
  next
    assume same: "?r0 = reader"
    from l l' four same have "length (rest reader') < length (rest reader)" by auto
    with d d' same show ?thesis by simp
  qed
qed

text \<open>
  With a consuming archive reader and finitely nested decompression the outer loop, and
  so \<open>extractRawSchematic\<close>, ends on every stream.
\<close>

lemma extract_loop_terminates:
  assumes cons: "consuming_reader L depth" and fin: "finite_nesting L depth"
  shows "\<exists>out. extract_loop L cfs tr reader = Some out"
proof (induction reader arbitrary: cfs tr
    rule: wf_induct_rule [OF wf_measures [of "[depth, \<lambda>r. length (rest r)]"]])
  case (1 reader)
  show ?case
  proof (cases "decompressingReadCloser L reader")
    case (Inl err)
    then show ?thesis by (subst extract_loop.simps) simp
  next
    case (Inr p)
    obtain decReader closeFunc where p: "p = (decReader, closeFunc)" by (cases p)
    let ?c = "Newc_Reader (new_discarder (bufio_NewReader decReader))"
    from read_records_terminates [OF cons, of ?c "tr @ [Acquired closeFunc]"]
    obtain exit where ex: "read_records L ?c (tr @ [Acquired closeFunc]) = Some exit" by blast
    show ?thesis
    proof (cases exit)
      case (Return res tr')
      with Inr p ex show ?thesis by (subst extract_loop.simps) simp
    next
      case (Break c' tr')
      obtain e reader' where ep: "eatPadding (rdr (cr c')) = (e, reader')"
        by (cases "eatPadding (rdr (cr c'))")
      show ?thesis
      proof (cases e)
        case (Some err)
        with Inr p ex Break ep show ?thesis by (subst extract_loop.simps) simp
      next
        case None
        have nl: "next_layer L (cfs, tr, reader) (cfs @ [closeFunc], tr', reader')"
          using Inr p ex Break ep None by (auto intro: fall_through)
        from next_layer_progress [OF cons fin nl]
        have "(reader', reader) \<in> measures [depth, \<lambda>r. length (rest r)]" by auto
        from "1.IH" [OF this] obtain out where
          "extract_loop L (cfs @ [closeFunc]) tr' reader' = Some out" by blast
        with next_layer_extract_loop [OF nl]
        have "extract_loop L cfs tr reader = Some out" by simp
        then show ?thesis by (rule exI)
      qed
    qed
  qed
qed

lemma extractRawSchematic_terminates:
  assumes "consuming_reader L depth" and "finite_nesting L depth"
  shows "\<exists>out. extractRawSchematic L reader = Some out"
  using extract_loop_terminates [OF assms, of "[]" "[]" reader]
  by (auto simp: extractRawSchematic_def)

text \<open>The library instances of the examples meet both assumptions.\<close>

lemma ReadAt_consumes:
  assumes "ReadAt d n off = ((p, err), d')"
  shows "length (rest (rdr d')) \<le> length (rest (rdr d))"
    and "err = Some EOF \<Longrightarrow> rest (rdr d') = []"
    and "err = None \<Longrightarrow> length p = n \<Longrightarrow> 0 < n \<Longrightarrow>
           length (rest (rdr d')) < length (rest (rdr d))"
  using assms
  by (auto simp: ReadAt_def ReadFull_def Copy_Discard_LimitReader_def Let_def
      split: if_splits sum.splits prod.splits)
     (cases p; simp)+

lemma newc_read_consumes:
  assumes "newc_read c n = (r, c')"
  shows "length (rest (rdr (cr c'))) \<le> length (rest (rdr (cr c)))"
    and "r = Inl EOF \<Longrightarrow> rest (rdr (cr c')) = []"
    and "r = Inr p \<Longrightarrow> 0 < n \<Longrightarrow> length (rest (rdr (cr c'))) < length (rest (rdr (cr c)))"
proof -
  obtain q err d where ra: "ReadAt (cr c) n (cpos c) = ((q, err), d)"
    by (metis surj_pair)
  note facts = ReadAt_consumes [OF ra]
  from assms ra have c': "cr c' = d"
    by (auto simp: newc_read_def split: if_splits)
  show "length (rest (rdr (cr c'))) \<le> length (rest (rdr (cr c)))"
    using facts(1) c' by simp
  show "r = Inl EOF \<Longrightarrow> rest (rdr (cr c')) = []"
    using assms ra facts(2) c' by (auto simp: newc_read_def split: if_splits)
  show "r = Inr p \<Longrightarrow> 0 < n \<Longrightarrow> length (rest (rdr (cr c'))) < length (rest (rdr (cr c)))"
    using assms ra facts(3) c' by (auto simp: newc_read_def split: if_splits)
qed

lemma newc_ReadRecord_consumes:
  assumes "newc_ReadRecord c = (r, c')"
  shows "length (rest (rdr (cr c'))) \<le> length (rest (rdr (cr c)))"
    and "r = Inr rec \<Longrightarrow> length (rest (rdr (cr c'))) < length (rest (rdr (cr c)))"
    and "r = Inl EOF \<Longrightarrow>
           rest (rdr (cr c')) = [] \<or> length (rest (rdr (cr c'))) < length (rest (rdr (cr c)))"
proof -
  obtain r1 c1 where h: "newc_read c 110 = (r1, c1)" by (metis surj_pair)
  have le1: "length (rest (rdr (cr c1))) \<le> length (rest (rdr (cr c)))"
    by (rule newc_read_consumes(1) [OF h])
  have all: "length (rest (rdr (cr c'))) \<le> length (rest (rdr (cr c))) \<and>
        (r = Inr rec \<longrightarrow> length (rest (rdr (cr c'))) < length (rest (rdr (cr c)))) \<and>
        (r = Inl EOF \<longrightarrow>
           rest (rdr (cr c')) = [] \<or> length (rest (rdr (cr c'))) < length (rest (rdr (cr c))))"
  proof (cases r1)
    case (Inl err)
    with assms h have "r = Inl err" "c' = c1" by (simp_all add: newc_ReadRecord_def)
    with le1 newc_read_consumes(2) [OF h] Inl show ?thesis by auto
  next
    case (Inr buf)
    have lt1: "length (rest (rdr (cr c1))) < length (rest (rdr (cr c)))"
      using newc_read_consumes(3) [OF h Inr] by simp
    show ?thesis
    proof (cases "\<exists>v fs nl. take 6 buf = ''070701'' \<and> hex_value 0 (drop 6 buf) = Some v \<and>
        header_field buf 6 = Some fs \<and> header_field buf 11 = Some nl \<and> nl \<noteq> 0")
      case False
      with assms h Inr have "c' = c1 \<and> (\<exists>m. r = Inl (Foreign m))"
        by (auto simp: newc_ReadRecord_def split: if_splits option.splits)
      with lt1 show ?thesis by auto
    next
      case True
      then obtain v fs nl where hd: "take 6 buf = ''070701''"
        "hex_value 0 (drop 6 buf) = Some v" "header_field buf 6 = Some fs"
        "header_field buf 11 = Some nl" "nl \<noteq> 0" by blast
      obtain r2 c2 where n: "newc_read c1 nl = (r2, c2)" by (metis surj_pair)
      have le2: "length (rest (rdr (cr c2))) \<le> length (rest (rdr (cr c1)))"
        by (rule newc_read_consumes(1) [OF n])
      from assms h Inr hd n have "cr c' = cr c2"
        by (auto simp: newc_ReadRecord_def Let_def split: sum.splits)
      with le2 lt1 show ?thesis by simp
    qed
  qed
  from all show "length (rest (rdr (cr c'))) \<le> length (rest (rdr (cr c)))" by simp
  from all show "r = Inr rec \<Longrightarrow> length (rest (rdr (cr c'))) < length (rest (rdr (cr c)))"
    by simp
  from all show "r = Inl EOF \<Longrightarrow>
           rest (rdr (cr c')) = [] \<or> length (rest (rdr (cr c'))) < length (rest (rdr (cr c)))"
    by simp
qed

lemma example_libs_consuming:
  "consuming_reader example_libs (\<lambda>r. length (rest r))"
  unfolding consuming_reader_def
proof (intro allI impI)
  fix c r c'
  assume a: "ReadRecord example_libs c = (r, c')"
  obtain r0 c0 where h: "newc_ReadRecord c = (r0, c0)" by (metis surj_pair)
  note facts = newc_ReadRecord_consumes [OF h]
  from a h have c': "c' = c0" and
    r: "r = r0 \<or> (\<exists>rec. r0 = Inr rec \<and> r = Inl EOF)"
    by (auto simp: example_libs_def EOFReader_ReadRecord_def split: sum.splits if_splits)
  show "length (rest (rdr (cr c'))) \<le> length (rest (rdr (cr c))) \<and>
        length (rest (rdr (cr c'))) \<le> length (rest (rdr (cr c))) \<and>
        (case r of
           Inl err \<Rightarrow> err = EOF \<longrightarrow> rest (rdr (cr c')) = [] \<or>
               length (rest (rdr (cr c'))) < length (rest (rdr (cr c)))
         | Inr rec \<Rightarrow> length (rest (rdr (cr c'))) < length (rest (rdr (cr c))))"
    using facts r c' by (auto split: sum.splits)
qed

lemma example_libs_finite_nesting:
  "finite_nesting example_libs (\<lambda>r. length (rest r))"
  by (auto simp: finite_nesting_def example_libs_def stored_NewReader_def split: if_splits)

end
